theory Spec2Isabelle
  imports Main "HOL-Library.Word"
begin

unbundle bit_operations_syntax

section \<open>Bytes, JavaScript numbers and typed arrays\<close>

text \<open>
  The module \<^verbatim>\<open>js/ble-protocol.js\<close> builds frames in plain JavaScript arrays of numbers
  and converts them with \<^verbatim>\<open>new Uint8Array(...)\<close>, which keeps the low eight bits of every
  element. The numbers that occur in the frame builders are non-negative integers far
  below \<open>2^31\<close>, where the operators \<^verbatim>\<open>^\<close>, \<^verbatim>\<open>&\<close>, \<^verbatim>\<open>|\<close>, \<^verbatim>\<open><<\<close> and \<^verbatim>\<open>>>\<close> of JavaScript agree
  with the bit operations on \<^typ>\<open>nat\<close>. A byte that the program receives (a command
  byte, an element of a \<^verbatim>\<open>Uint8Array\<close>) is an \<^typ>\<open>8 word\<close>; read as a JavaScript number it
  is \<^term>\<open>unat\<close> of it.
\<close>

type_synonym byte = "8 word"

definition START_BYTE :: nat where
  "START_BYTE = 0x73"

definition IDENTIFIER_BYTE :: nat where
  "IDENTIFIER_BYTE = 0x23"

definition Uint8Array :: "nat list \<Rightarrow> byte list" where
  "Uint8Array xs = map of_nat xs"

text \<open>\<^verbatim>\<open>payload ? Array.from(payload) : []\<close>; the default argument \<^verbatim>\<open>null\<close> is \<^term>\<open>None\<close>.\<close>

definition payloadArray_of :: "byte list option \<Rightarrow> nat list" where
  "payloadArray_of payload = (case payload of None \<Rightarrow> [] | Some p \<Rightarrow> map unat p)"

text \<open>\<^verbatim>\<open>calculateXORChecksum\<close>, and the same loop where it is written inline.\<close>

definition calculateXORChecksum :: "nat list \<Rightarrow> nat" where
  "calculateXORChecksum bytes = foldl (XOR) 0 bytes"

text \<open>The XOR of a sequence of bytes, the notion the frame layouts refer to.\<close>

definition xor_bytes :: "byte list \<Rightarrow> byte" where
  "xor_bytes bs = foldl (XOR) 0 bs"

section \<open>Message creation\<close>

definition createCommandMessage :: "byte \<Rightarrow> byte list option \<Rightarrow> byte list" where
  "createCommandMessage commandType payload =
     (let header = [START_BYTE, 0, IDENTIFIER_BYTE, unat commandType];
          payloadArray = payloadArray_of payload;
          messageLength = length header + length payloadArray + 1;
          header = header[1 := messageLength];
          message = header @ payloadArray;
          checksum = foldl (XOR) 0 message;
          message = message @ [checksum]
      in Uint8Array message)"

definition createMeterIPMessage :: "byte \<Rightarrow> byte list option \<Rightarrow> byte list" where
  "createMeterIPMessage commandType payload =
     (let payloadArray = payloadArray_of payload;
          len = 4 + length payloadArray;
          message = [START_BYTE, len, IDENTIFIER_BYTE, unat commandType] @ payloadArray;
          checksum = foldl (XOR) (IDENTIFIER_BYTE XOR unat commandType) payloadArray;
          message = message @ [checksum]
      in Uint8Array message)"

text \<open>
  \<^verbatim>\<open>createBLEOTAFrame(command, reserved, payload = [])\<close>. The checksum loop runs over the
  frame built so far, the header byte and the two length bytes included.
\<close>

definition createBLEOTAFrame :: "byte \<Rightarrow> byte \<Rightarrow> byte list \<Rightarrow> byte list" where
  "createBLEOTAFrame command reserved payload =
     (let frame = [0x73];
          totalLength = 1 + 1 + length payload + 1;
          frame = frame @ [totalLength AND 0xFF];
          frame = frame @ [drop_bit 8 totalLength AND 0xFF];
          frame = frame @ [unat command];
          frame = frame @ [unat reserved];
          frame = frame @ map unat payload;
          checksum = foldl (XOR) 0 frame;
          frame = frame @ [checksum]
      in Uint8Array frame)"

section \<open>Typed-array slicing\<close>

text \<open>
  \<^verbatim>\<open>slice(start, end)\<close> of a \<^verbatim>\<open>Uint8Array\<close> or an \<^verbatim>\<open>ArrayBuffer\<close>: a negative index counts
  from the end, and both indices are clamped to the length.
\<close>

definition slice_js :: "'a list \<Rightarrow> int \<Rightarrow> int \<Rightarrow> 'a list" where
  "slice_js xs start fin =
     (let len = int (length xs);
          k = (if start < 0 then max (len + start) 0 else min start len);
          final = (if fin < 0 then max (len + fin) 0 else min fin len)
      in take (nat (final - k)) (drop (nat k) xs))"

section \<open>32-bit operators\<close>

text \<open>
  The bitwise operators of JavaScript convert their operands with \<^verbatim>\<open>ToInt32\<close>, which keeps
  the value modulo \<open>2^32\<close>; \<^verbatim>\<open>>>\<close> is the sign-propagating shift and the results are read as
  signed 32-bit integers. \<^verbatim>\<open>x >>> 0\<close> reads the same 32 bits as an unsigned number.
\<close>

definition ToInt32 :: "nat \<Rightarrow> 32 word" where
  "ToInt32 n = of_nat n"

text \<open>
  \<^verbatim>\<open>[x & 0xFF, (x >> 8) & 0xFF, (x >> 16) & 0xFF, (x >> 24) & 0xFF]\<close>, as written for the
  firmware size, the firmware checksum and the chunk offset.
\<close>

definition le32_bytes :: "nat \<Rightarrow> byte list" where
  "le32_bytes n =
     (let x = ToInt32 n
      in [ucast (x AND 0xFF),
          ucast (signed_drop_bit 8 x AND 0xFF),
          ucast (signed_drop_bit 16 x AND 0xFF),
          ucast (signed_drop_bit 24 x AND 0xFF)])"

text \<open>
  \<^verbatim>\<open>p[i] | (p[i+1] << 8) | (p[i+2] << 16) | (p[i+3] << 24)\<close>: a signed 32-bit integer.
\<close>

definition read_le32_signed :: "byte list \<Rightarrow> nat \<Rightarrow> int" where
  "read_le32_signed p i =
     sint ((ucast (p ! i) OR push_bit 8 (ucast (p ! (i + 1)))
            OR push_bit 16 (ucast (p ! (i + 2)))
            OR push_bit 24 (ucast (p ! (i + 3)))) :: 32 word)"

section \<open>The OTA notification decoder\<close>

text \<open>
  The three early returns of \<^verbatim>\<open>handleNotification\<close>, named after their log messages
  (\<^verbatim>\<open>Bad notification header\<close>, \<^verbatim>\<open>Length mismatch\<close>, \<^verbatim>\<open>Bad XOR checksum\<close>).
\<close>

datatype DecodeError = BadNotificationHeader | LengthMismatch | BadXORChecksum

text \<open>The object \<^verbatim>\<open>{ ok: true, cmd, reserved, payload }\<close> handed to the pending resolver.\<close>

record ack =
  ack_cmd :: byte
  ack_reserved :: byte
  ack_payload :: "byte list"

text \<open>
  The parsing part of \<^verbatim>\<open>handleNotification\<close> (lines 698 to 725), in the order of the
  source: header, declared length, checksum, then the fields.
\<close>

definition parseOTAFrame :: "byte list \<Rightarrow> DecodeError + ack" where
  "parseOTAFrame v =
     (if length v < 6 \<or> unat (v ! 0) \<noteq> 0x73 then Inl BadNotificationHeader
      else
        let declaredLength = unat (v ! 1) OR push_bit 8 (unat (v ! 2))
        in if declaredLength \<noteq> length v then Inl LengthMismatch
           else
             let c = v ! 3;
                 r = v ! 4;
                 x = foldl (XOR) 0 (map unat (take (length v - 1) v))
             in if x \<noteq> unat (v ! (length v - 1)) then Inl BadXORChecksum
                else Inr \<lparr>ack_cmd = c, ack_reserved = r, ack_payload = slice_js v 5 (- 1)\<rparr>)"

section \<open>The acknowledgment mailbox\<close>

text \<open>
  \<^verbatim>\<open>waitForAck\<close> resolves to the acknowledgment or to \<^verbatim>\<open>{ ok: false, reason }\<close>, where the
  reason is \<^verbatim>\<open>unexpected cmd: expected 0x.., got 0x..\<close> or \<^verbatim>\<open>timeout\<close>.
\<close>

datatype reason = UnexpectedCmd byte byte | Timeout

datatype AckResult = Ok ack | NotOk reason

text \<open>
  The state that \<^verbatim>\<open>waitForAck\<close>, its timer and the notification handlers share.
  Every call of \<^verbatim>\<open>waitForAck\<close> makes a promise, numbered in order of creation. The global
  \<^verbatim>\<open>pendingAckResolve\<close> is \<^verbatim>\<open>null\<close> or the closure made by the latest call; the closure is
  determined by the promise it resolves and the command it expects. \<open>resolveLog\<close> lists
  every call of a promise's \<^verbatim>\<open>resolve\<close> in order; a promise keeps the value of the first call
  and ignores the later ones. \<open>timers\<close> holds the callbacks registered with \<^verbatim>\<open>setTimeout\<close>
  that have not run yet, each with the time at which it is due. \<open>decodeLog\<close> lists the
  decoding failures that were logged. For the generic handler, \<open>otaActivationResolve\<close>
  says whether \<^verbatim>\<open>window.otaActivationResolve\<close> is set, \<open>activationLog\<close> lists the values it
  was called with, \<open>currentCommand\<close> is the name in \<^verbatim>\<open>window.currentCommand\<close>, and
  \<open>forwarded\<close> lists the responses handed on for parsing and display.
\<close>

record globals =
  pendingAckResolve :: "(nat \<times> byte) option"
  resolveLog :: "(nat \<times> AckResult) list"
  nextPromise :: nat
  timers :: "(nat \<times> nat) list"
  now :: nat
  decodeLog :: "DecodeError list"
  otaActivationResolve :: bool
  activationLog :: "bool list"
  currentCommand :: "string option"
  forwarded :: "(byte list \<times> string) list"

definition initial :: globals where
  "initial = \<lparr>pendingAckResolve = None, resolveLog = [], nextPromise = 0, timers = [],
     now = 0, decodeLog = [], otaActivationResolve = False, activationLog = [],
     currentCommand = None, forwarded = []\<rparr>"

text \<open>The value a promise has settled to: that of the first call of its \<^verbatim>\<open>resolve\<close>.\<close>

definition promise_value :: "globals \<Rightarrow> nat \<Rightarrow> AckResult option" where
  "promise_value s p = map_of (resolveLog s) p"

definition resolve :: "nat \<Rightarrow> AckResult \<Rightarrow> globals \<Rightarrow> globals" where
  "resolve p v s = s\<lparr>resolveLog := resolveLog s @ [(p, v)]\<rparr>"

text \<open>The closure stored in \<^verbatim>\<open>pendingAckResolve\<close> (lines 748 to 757), applied to an ack.\<close>

definition ackResolver :: "nat \<times> byte \<Rightarrow> ack \<Rightarrow> globals \<Rightarrow> globals" where
  "ackResolver r a s =
     (case r of (p, expectedCmd) \<Rightarrow>
        if ack_cmd a = expectedCmd then resolve p (Ok a) s
        else resolve p (NotOk (UnexpectedCmd expectedCmd (ack_cmd a))) s)"

text \<open>The timer callback of \<^verbatim>\<open>waitForAck\<close> (lines 759 to 764) for promise \<open>p\<close>.\<close>

definition timeoutCallback :: "nat \<Rightarrow> globals \<Rightarrow> globals" where
  "timeoutCallback p s =
     (if pendingAckResolve s \<noteq> None
      then resolve p (NotOk Timeout) (s\<lparr>pendingAckResolve := None\<rparr>)
      else s)"

text \<open>\<^verbatim>\<open>waitForAck(expectedCmd, timeoutMs)\<close>: returns the new promise.\<close>

definition waitForAck :: "byte \<Rightarrow> nat \<Rightarrow> globals \<Rightarrow> nat \<times> globals" where
  "waitForAck expectedCmd timeoutMs s =
     (let p = nextPromise s
      in (p, s\<lparr>pendingAckResolve := Some (p, expectedCmd),
               timers := timers s @ [(now s + timeoutMs, p)],
               nextPromise := p + 1\<rparr>))"

text \<open>
  The delivery part of \<^verbatim>\<open>handleNotification\<close> (lines 728 to 737): the resolver is called
  and the slot is cleared.
\<close>

definition deliverAck :: "ack \<Rightarrow> globals \<Rightarrow> globals" where
  "deliverAck a s =
     (case pendingAckResolve s of
        None \<Rightarrow> s
      | Some r \<Rightarrow> (ackResolver r a s)\<lparr>pendingAckResolve := None\<rparr>)"

definition handleNotification :: "byte list \<Rightarrow> globals \<Rightarrow> globals" where
  "handleNotification v s =
     (case parseOTAFrame v of
        Inl e \<Rightarrow> s\<lparr>decodeLog := decodeLog s @ [e]\<rparr>
      | Inr a \<Rightarrow> deliverAck a s)"

text \<open>
  Time passing: the callbacks that are due run in the order of their due times, those due
  at the same time in the order of registration.
\<close>

definition elapse :: "nat \<Rightarrow> globals \<Rightarrow> globals" where
  "elapse ms s =
     (let t = now s + ms;
          due = sort_key fst (filter (\<lambda>(d, p). d \<le> t) (timers s));
          rest = filter (\<lambda>(d, p). \<not> d \<le> t) (timers s)
      in foldl (\<lambda>s' (d, p). timeoutCallback p s') (s\<lparr>timers := rest, now := t\<rparr>) due)"

datatype event = WaitForAck byte nat | Notification "byte list" | Elapse nat

fun step :: "globals \<Rightarrow> event \<Rightarrow> globals" where
  "step s (WaitForAck c t) = snd (waitForAck c t s)"
| "step s (Notification v) = handleNotification v s"
| "step s (Elapse ms) = elapse ms s"

definition run :: "event list \<Rightarrow> globals" where
  "run evs = foldl step initial evs"

section \<open>The generic notification handler\<close>





section \<open>Firmware analysis\<close>

text \<open>
  \<^verbatim>\<open>new TextDecoder('utf-8', { fatal: false }).decode(bytes)\<close> is the UTF-8 decoder of the
  Encoding Standard in replacement mode. Its state is the code point under construction,
  the bytes seen and needed, and the bounds for the next continuation byte. A byte that
  cannot continue a sequence ends it with U+FFFD and is processed again from the initial
  state.
\<close>

function utf8_decode :: "nat \<Rightarrow> nat \<Rightarrow> nat \<Rightarrow> nat \<Rightarrow> nat \<Rightarrow> nat list \<Rightarrow> nat list" where
  "utf8_decode cp seen needed lo hi [] = (if needed \<noteq> 0 then [0xFFFD] else [])"
| "utf8_decode cp seen needed lo hi (b # bs) =
     (if needed = 0 then
        (if b \<le> 0x7F then b # utf8_decode cp seen needed lo hi bs
         else if 0xC2 \<le> b \<and> b \<le> 0xDF then utf8_decode (b AND 0x1F) seen 1 lo hi bs
         else if 0xE0 \<le> b \<and> b \<le> 0xEF then
           utf8_decode (b AND 0xF) seen 2
             (if b = 0xE0 then 0xA0 else lo) (if b = 0xED then 0x9F else hi) bs
         else if 0xF0 \<le> b \<and> b \<le> 0xF4 then
           utf8_decode (b AND 7) seen 3
             (if b = 0xF0 then 0x90 else lo) (if b = 0xF4 then 0x8F else hi) bs
         else 0xFFFD # utf8_decode cp seen needed lo hi bs)
      else if \<not> (lo \<le> b \<and> b \<le> hi) then 0xFFFD # utf8_decode 0 0 0 0x80 0xBF (b # bs)
      else
        (let cp' = push_bit 6 cp OR (b AND 0x3F)
         in if seen + 1 \<noteq> needed then utf8_decode cp' (seen + 1) needed 0x80 0xBF bs
            else cp' # utf8_decode 0 0 0 0x80 0xBF bs))"
  by pat_completeness auto
termination
  by (relation "measure (\<lambda>(cp, seen, needed, lo, hi, bs).
        2 * length bs + (if needed = 0 then 0 else 1))") auto

text \<open>A code point as UTF-16 code units, the elements of a JavaScript string.\<close>

definition utf16_units :: "nat \<Rightarrow> nat list" where
  "utf16_units c =
     (if c < 0x10000 then [c]
      else [0xD800 + drop_bit 10 (c - 0x10000), 0xDC00 + ((c - 0x10000) AND 0x3FF)])"

text \<open>The decoder object drops a byte order mark at the start of its output.\<close>

definition TextDecoder_decode :: "byte list \<Rightarrow> nat list" where
  "TextDecoder_decode bytes =
     (let cps = utf8_decode 0 0 0 0x80 0xBF (map unat bytes);
          cps = (case cps of [] \<Rightarrow> [] | c # rest \<Rightarrow> if c = 0xFEFF then rest else c # rest)
      in concat (map utf16_units cps))"

text \<open>\<^verbatim>\<open>s.includes(t)\<close>: \<open>t\<close> occurs in \<open>s\<close> as a contiguous run.\<close>

fun includes_js :: "'a list \<Rightarrow> 'a list \<Rightarrow> bool" where
  "includes_js [] t = (t = [])"
| "includes_js (x # xs) t = (take (length t) (x # xs) = t \<or> includes_js xs t)"

definition VenusC :: "nat list" where
  "VenusC = [0x56, 0x65, 0x6E, 0x75, 0x73, 0x43]"

text \<open>
  The result object of \<^verbatim>\<open>analyzeFirmware\<close>. The warnings are the source's texts without
  their leading warning sign.
\<close>

record analysis =
  checksum :: nat
  firmwareType :: string
  size_bytes :: nat
  warning :: string

definition signatureOffset :: nat where
  "signatureOffset = 0x50004"

text \<open>
  The byte sum is kept in a JavaScript number, which is exact for every buffer a browser
  can hold; \<^verbatim>\<open>sum >>> 0\<close> then reduces it to 32 bits and \<^verbatim>\<open>(~sum) >>> 0\<close> complements them.
\<close>

definition analyzeFirmware :: "byte list \<Rightarrow> analysis" where
  "analyzeFirmware bytes =
     (let sum = foldl (+) 0 (map unat bytes);
          sum = unat (ToInt32 sum);
          checksum = unat (NOT (ToInt32 sum));
          (firmwareType, sizeWarning) =
            (if length bytes > signatureOffset + 10 then
               let signatureBytes = slice_js bytes (int signatureOffset) (int (signatureOffset + 10));
                   signatureStr = TextDecoder_decode signatureBytes
               in if includes_js signatureStr VenusC
                  then (''EMS/Control Firmware (VenusC signature found)'', [])
                  else
                    let hasData = (\<exists>b \<in> set signatureBytes. b \<noteq> 0x00 \<and> b \<noteq> 0xFF)
                    in if hasData then (''BMS Firmware (no VenusC signature)'', [])
                       else (''Unknown (signature area empty)'', [])
             else if length bytes \<ge> 32768 then (''BMS Firmware (size suggests BMS)'', [])
             else if length bytes \<ge> 1024 then
               (''Unknown (small size - proceed with caution)'',
                ''File size is unusually small for firmware'')
             else
               (''Unknown (very small - likely not firmware)'',
                ''File size is very small - this may not be valid firmware''))
      in \<lparr>checksum = checksum, firmwareType = firmwareType, size_bytes = length bytes,
          warning = sizeWarning\<rparr>)"

section \<open>The OTA steps\<close>

text \<open>
  What the outside does to one send: the write is rejected, or the write is accepted and
  the wait for the acknowledgment resolves to a value.
\<close>

datatype attempt_outcome = WriteFailed | Resolved AckResult

datatype echo_report = EchoVerified | EchoMismatch

text \<open>
  \<^verbatim>\<open>sendFirmwareSize(firmwareSize)\<close>, with the globals it reads as parameters: whether
  \<^verbatim>\<open>txCharacteristic\<close> is set, and \<^verbatim>\<open>firmwareChecksum\<close>. It returns the frame handed to the
  write, the outcome of the checksum comparison when one was made, and its result.
\<close>

definition sendFirmwareSize ::
    "bool \<Rightarrow> nat \<Rightarrow> nat \<Rightarrow> attempt_outcome \<Rightarrow> byte list option \<times> echo_report option \<times> bool" where
  "sendFirmwareSize txCharacteristic firmwareChecksum firmwareSize outcome =
     (if \<not> txCharacteristic then (None, None, False)
      else
        let sizePayload = le32_bytes firmwareSize @ le32_bytes firmwareChecksum;
            frame = createBLEOTAFrame 0x50 0x10 sizePayload
        in case outcome of
             WriteFailed \<Rightarrow> (Some frame, None, False)
           | Resolved (NotOk r) \<Rightarrow> (Some frame, None, False)
           | Resolved (Ok a) \<Rightarrow>
               (Some frame,
                (if length (ack_payload a) \<ge> 8 then
                   let echoedChecksum = read_le32_signed (ack_payload a) 4
                   in Some (if echoedChecksum = int firmwareChecksum
                            then EchoVerified else EchoMismatch)
                 else None),
                True))"

text \<open>One write of the chunk transfer: what was sliced, where, and the frame built.\<close>

record chunk_write =
  cw_index :: nat
  cw_offset :: nat
  cw_data :: "byte list"
  cw_frame :: "byte list"

text \<open>
  \<^verbatim>\<open>connectAndPrepareOTA\<close> sets the chunk size to 128 before the transfer starts, and
  \<^verbatim>\<open>performOTAUpdate\<close> computes the number of chunks from it.
\<close>

definition otaChunkSize :: nat where
  "otaChunkSize = 128"

definition otaTotalChunks :: "byte list \<Rightarrow> nat" where
  "otaTotalChunks firmwareData = (length firmwareData + otaChunkSize - 1) div otaChunkSize"

datatype transfer_result = Transferred | FailedChunk nat

text \<open>
  The chunk transfer of \<^verbatim>\<open>performOTAUpdate\<close> (lines 1025 to 1054) and \<^verbatim>\<open>sendFirmwareChunk\<close>
  are asynchronous code: they run until they await a promise and go on when the promise
  is settled. There are three such places: the promise of \<^verbatim>\<open>writeValueWithoutResponse\<close>
  (line 908), the promise of \<^verbatim>\<open>waitForAck\<close> (line 923) and the pause of 100 ms between two
  attempts (line 1051), held here with the time at which its timer is due. The loop is
  left by falling out of it or by the exception of line 1049.
\<close>

datatype awaited = AwaitWrite | AwaitAck nat | AwaitPause nat | LoopLeft transfer_result

text \<open>
  The state of the transfer: the mailbox state it shares with the notification handler
  and the timers, the place where it is suspended, the variables \<^verbatim>\<open>offset\<close>, \<^verbatim>\<open>chunkIndex\<close>
  and \<^verbatim>\<open>retryCount\<close> of the loop, the frames handed to \<^verbatim>\<open>writeValueWithoutResponse\<close> so
  far, and the outcomes of the comparisons of the echoed offset, which decide a log
  message only.
\<close>

record transfer =
  mailbox :: globals
  awaiting :: awaited
  offset :: nat
  chunkIndex :: nat
  retryCount :: nat
  written :: "chunk_write list"
  echoLog :: "echo_report option list"

text \<open>Lines 1031 and 1032: the chunk at the running offset.\<close>

definition chunk_at :: "byte list \<Rightarrow> nat \<Rightarrow> byte list" where
  "chunk_at firmwareData off =
     (let fin = min (off + otaChunkSize) (length firmwareData)
      in slice_js firmwareData (int off) (int fin))"

text \<open>
  \<^verbatim>\<open>sendFirmwareChunk\<close> has returned \<^verbatim>\<open>false\<close>: line 1040 throws and the handler of lines
  1045 to 1052 counts the attempt, throws out of the loop after the third, and starts the
  pause otherwise.
\<close>

definition chunkFailed :: "transfer \<Rightarrow> transfer" where
  "chunkFailed s =
     (let s = s\<lparr>retryCount := retryCount s + 1\<rparr>
      in if retryCount s \<ge> 3 then s\<lparr>awaiting := LoopLeft (FailedChunk (chunkIndex s + 1))\<rparr>
         else s\<lparr>awaiting := AwaitPause (now (mailbox s) + 100)\<rparr>)"

text \<open>
  The call of \<^verbatim>\<open>sendFirmwareChunk\<close> at line 1039, up to its first await (lines 891 to 908):
  without \<^verbatim>\<open>txCharacteristic\<close> it returns \<^verbatim>\<open>false\<close>, otherwise it builds the frame and hands it
  to the write.
\<close>

definition sendFirmwareChunk :: "bool \<Rightarrow> byte list \<Rightarrow> transfer \<Rightarrow> transfer" where
  "sendFirmwareChunk txCharacteristic firmwareData s =
     (if \<not> txCharacteristic then chunkFailed s
      else
        let chunkData = chunk_at firmwareData (offset s);
            payload = le32_bytes (offset s) @ chunkData;
            frame = createBLEOTAFrame 0x51 0x10 payload;
            w = \<lparr>cw_index = chunkIndex s + 1, cw_offset = offset s, cw_data = chunkData,
                 cw_frame = frame\<rparr>
        in s\<lparr>written := written s @ [w], awaiting := AwaitWrite\<rparr>)"

text \<open>The test of the outer loop (line 1030) and the start of an iteration.\<close>

definition nextChunk :: "bool \<Rightarrow> byte list \<Rightarrow> transfer \<Rightarrow> transfer" where
  "nextChunk txCharacteristic firmwareData s =
     (if offset s < length firmwareData
      then sendFirmwareChunk txCharacteristic firmwareData (s\<lparr>retryCount := 0\<rparr>)
      else s\<lparr>awaiting := LoopLeft Transferred\<rparr>)"

text \<open>
  The write is settled. When it is fulfilled, \<^verbatim>\<open>sendFirmwareChunk\<close> goes on to line 923 and
  calls \<^verbatim>\<open>waitForAck(0x51, 1500)\<close>; when it is rejected, the handler of line 942 returns
  \<^verbatim>\<open>false\<close>.
\<close>

definition writeSettled :: "bool \<Rightarrow> transfer \<Rightarrow> transfer" where
  "writeSettled fulfilled s =
     (if awaiting s \<noteq> AwaitWrite then s
      else if fulfilled then
        (case waitForAck 0x51 1500 (mailbox s) of
           (p, m) \<Rightarrow> s\<lparr>mailbox := m, awaiting := AwaitAck p\<rparr>)
      else chunkFailed s)"

text \<open>
  The promise of \<^verbatim>\<open>waitForAck\<close> has the value \<open>r\<close> (lines 923 to 941, then lines 1042 to
  1044): a value that is not an acknowledgment makes \<^verbatim>\<open>sendFirmwareChunk\<close> return \<^verbatim>\<open>false\<close>;
  after an acknowledgment the offset advances by the length of the chunk and the loops
  are tested again.
\<close>

definition ackResolved :: "bool \<Rightarrow> byte list \<Rightarrow> AckResult \<Rightarrow> transfer \<Rightarrow> transfer" where
  "ackResolved txCharacteristic firmwareData r s =
     (case r of
        NotOk e \<Rightarrow> chunkFailed s
      | Ok a \<Rightarrow>
          let report =
                (if length (ack_payload a) \<ge> 4 then
                   let echoedOffset = read_le32_signed (ack_payload a) 0
                   in Some (if echoedOffset = int (offset s) then EchoVerified else EchoMismatch)
                 else None);
              chunk = chunk_at firmwareData (offset s);
              s = s\<lparr>echoLog := echoLog s @ [report], offset := offset s + length chunk,
                    chunkIndex := chunkIndex s + 1\<rparr>
          in nextChunk txCharacteristic firmwareData s)"

text \<open>The pause is over: the test of the inner loop (line 1037) with \<^verbatim>\<open>chunkSent\<close> false.\<close>

definition pauseOver :: "bool \<Rightarrow> byte list \<Rightarrow> transfer \<Rightarrow> transfer" where
  "pauseOver txCharacteristic firmwareData s =
     (if retryCount s < 3 then sendFirmwareChunk txCharacteristic firmwareData s
      else nextChunk txCharacteristic firmwareData s)"

text \<open>
  After a callback has run, the transfer goes on if the promise it awaits is settled.
\<close>

definition continue :: "bool \<Rightarrow> byte list \<Rightarrow> transfer \<Rightarrow> transfer" where
  "continue txCharacteristic firmwareData s =
     (case awaiting s of
        AwaitAck p \<Rightarrow>
          (case promise_value (mailbox s) p of
             None \<Rightarrow> s
           | Some r \<Rightarrow> ackResolved txCharacteristic firmwareData r s)
      | AwaitPause due \<Rightarrow>
          if due \<le> now (mailbox s) then pauseOver txCharacteristic firmwareData s else s
      | _ \<Rightarrow> s)"

text \<open>
  What happens around the transfer: the outstanding write is settled, a notification of
  the characteristic is handled by \<^verbatim>\<open>handleNotification\<close>, or time passes and the timers
  that are due run.
\<close>

datatype ota_event = WriteSettled bool | Notified "byte list" | Elapsed nat

fun ota_step :: "bool \<Rightarrow> byte list \<Rightarrow> transfer \<Rightarrow> ota_event \<Rightarrow> transfer" where
  "ota_step tx fw s (WriteSettled fulfilled) = writeSettled fulfilled s"
| "ota_step tx fw s (Notified v) = continue tx fw (s\<lparr>mailbox := handleNotification v (mailbox s)\<rparr>)"
| "ota_step tx fw s (Elapsed ms) = continue tx fw (s\<lparr>mailbox := elapse ms (mailbox s)\<rparr>)"

text \<open>
  Lines 1027 and 1028 and the first test of the loop, with the mailbox as the earlier
  steps of the update have left it.
\<close>

definition startTransfer :: "bool \<Rightarrow> byte list \<Rightarrow> globals \<Rightarrow> transfer" where
  "startTransfer txCharacteristic firmwareData m =
     nextChunk txCharacteristic firmwareData
       \<lparr>mailbox = m, awaiting = AwaitWrite, offset = 0, chunkIndex = 0, retryCount = 0,
        written = [], echoLog = []\<rparr>"

definition transferChunks :: "bool \<Rightarrow> byte list \<Rightarrow> globals \<Rightarrow> ota_event list \<Rightarrow> transfer" where
  "transferChunks txCharacteristic firmwareData m evs =
     foldl (ota_step txCharacteristic firmwareData) (startTransfer txCharacteristic firmwareData m) evs"

section \<open>Notions and inputs the statements refer to\<close>

text \<open>The payload bytes of an optional payload argument.\<close>

definition payload_bytes :: "byte list option \<Rightarrow> byte list" where
  "payload_bytes payload = (case payload of None \<Rightarrow> [] | Some p \<Rightarrow> p)"

text \<open>The 16-bit little-endian number in bytes 1 and 2 of a frame.\<close>

definition declared_length :: "byte list \<Rightarrow> nat" where
  "declared_length v = unat (v ! 1) + 256 * unat (v ! 2)"

text \<open>At least six bytes, the first of them \<open>0x73\<close>.\<close>

definition header_ok :: "byte list \<Rightarrow> bool" where
  "header_ok v = (length v \<ge> 6 \<and> v ! 0 = 0x73)"

text \<open>The ten bytes at the signature offset.\<close>

definition signature_window :: "byte list \<Rightarrow> byte list" where
  "signature_window bytes = take 10 (drop 0x50004 bytes)"

text \<open>
  Three images of \<open>0x50010\<close> bytes: one with the text \<open>VenusC0000\<close> at the signature offset,
  one with that window zeroed, one with other data there.
\<close>

definition ems_image :: "byte list" where
  "ems_image = replicate 0x50004 0
     @ [0x56, 0x65, 0x6E, 0x75, 0x73, 0x43, 0x30, 0x30, 0x30, 0x30] @ [0, 0]"

definition blank_image :: "byte list" where
  "blank_image = replicate 0x50004 0 @ [0, 0, 0, 0, 0, 0, 0, 0, 0, 0] @ [0, 0]"

definition bms_image :: "byte list" where
  "bms_image = replicate 0x50004 0 @ [1, 2, 3, 4, 5, 6, 7, 8, 9, 10] @ [0, 0]"

text \<open>
  The write expected for chunk number \<open>i\<close>, counted from 0: the slice of at most 128 bytes
  at offset \<open>128 * i\<close> and the frame around it.
\<close>

definition chunk_write_at :: "byte list \<Rightarrow> nat \<Rightarrow> chunk_write" where
  "chunk_write_at fw i =
     (let off = otaChunkSize * i;
          chunk = take (min otaChunkSize (length fw - off)) (drop off fw)
      in \<lparr>cw_index = i + 1, cw_offset = off, cw_data = chunk,
          cw_frame = createBLEOTAFrame 0x51 0x10 (le32_bytes off @ chunk)\<rparr>)"

text \<open>
  Two notifications that the decoder accepts as acknowledgments of command \<open>0x51\<close>, with
  the offsets 0 and 128 as payloads, and a run of two waits: the first wait is
  acknowledged after 50 ms, the second wait starts 10 ms later, and the clock then reaches
  1500 ms, when the timer of the first wait is due.
\<close>

definition ack_frame_0 :: "byte list" where
  "ack_frame_0 = [0x73, 0x0A, 0x00, 0x51, 0x10, 0x00, 0x00, 0x00, 0x00, 0x38]"

definition ack_frame_128 :: "byte list" where
  "ack_frame_128 = [0x73, 0x0A, 0x00, 0x51, 0x10, 0x80, 0x00, 0x00, 0x00, 0xB8]"

definition stale_timer_trace :: "event list" where
  "stale_timer_trace =
     [WaitForAck 0x51 1500, Elapse 50, Notification ack_frame_0, Elapse 10,
      WaitForAck 0x51 1500, Elapse 1440]"

definition is_wait :: "event \<Rightarrow> bool" where
  "is_wait e = (case e of WaitForAck c t \<Rightarrow> True | _ \<Rightarrow> False)"

text \<open>
  A firmware of 300 bytes; the acknowledgment of the size frame and one more
  acknowledgment of command \<open>0x51\<close>, with the offset 256; and the mailbox as
  \<^verbatim>\<open>sendFirmwareSize\<close> leaves it when it has called \<^verbatim>\<open>waitForAck(0x50, 2000)\<close> at 0 ms and the
  device acknowledges after \<open>ms\<close> milliseconds.
\<close>

definition firmware_300 :: "byte list" where
  "firmware_300 = replicate 300 7"

definition size_ack_frame :: "byte list" where
  "size_ack_frame = [0x73, 0x06, 0x00, 0x50, 0x10, 0x35]"

definition ack_frame_256 :: "byte list" where
  "ack_frame_256 = [0x73, 0x0A, 0x00, 0x51, 0x10, 0x00, 0x01, 0x00, 0x00, 0x39]"

definition size_acknowledged :: "nat \<Rightarrow> globals" where
  "size_acknowledged ms = run [WaitForAck 0x50 2000, Elapse ms, Notification size_ack_frame]"

text \<open>
  Two runs of the transfer that starts when the size frame is acknowledged. In both the
  writes are fulfilled at once and the device acknowledges every write, after 1100 ms in
  the first run and after 100 ms in the second. In the first run the transfer starts at
  1100 ms and writes the first chunk; the clock reaches 2000 ms, when the timer of the
  wait of \<^verbatim>\<open>sendFirmwareSize\<close> is due; the acknowledgment of the chunk arrives at 2200 ms; and
  the clock reaches 2600 ms, when the timer of the wait for it is due.
\<close>

definition slow_acks :: "ota_event list" where
  "slow_acks = [WriteSettled True, Elapsed 900, Elapsed 200, Notified ack_frame_0, Elapsed 400]"

definition quick_acks :: "ota_event list" where
  "quick_acks =
     [WriteSettled True, Elapsed 100, Notified ack_frame_0,
      WriteSettled True, Elapsed 100, Notified ack_frame_128,
      WriteSettled True, Elapsed 100, Notified ack_frame_256]"

text \<open>
  For the frames that a run of the transfer has written: the frames of the chunks
  \<open>0, 1, ...\<close> in order, chunk \<open>i\<close> as often as \<open>counts\<close> says; the number of attempts made at
  the chunk in hand; and what holds of the transfer wherever it is suspended.
\<close>

definition chunk_writes :: "byte list \<Rightarrow> nat list \<Rightarrow> chunk_write list" where
  "chunk_writes fw counts =
     concat (map (\<lambda>(i, c). replicate c (chunk_write_at fw i)) (zip [0..<length counts] counts))"

definition attempts_made :: "transfer \<Rightarrow> nat" where
  "attempts_made s =
     (case awaiting s of
        AwaitWrite \<Rightarrow> retryCount s + 1
      | AwaitAck p \<Rightarrow> retryCount s + 1
      | AwaitPause due \<Rightarrow> retryCount s
      | LoopLeft r \<Rightarrow> (case r of Transferred \<Rightarrow> 0 | FailedChunk j \<Rightarrow> retryCount s))"

definition written_so_far :: "byte list \<Rightarrow> transfer \<Rightarrow> nat \<Rightarrow> bool" where
  "written_so_far fw s k \<longleftrightarrow>
     (\<exists>counts. length counts = chunkIndex s \<and> (\<forall>c \<in> set counts. 1 \<le> c \<and> c \<le> 3) \<and>
        written s = chunk_writes fw counts @ replicate k (chunk_write_at fw (chunkIndex s))) \<and>
     offset s = min (otaChunkSize * chunkIndex s) (length fw) \<and>
     chunkIndex s \<le> otaTotalChunks fw"

definition transfer_inv :: "byte list \<Rightarrow> transfer \<Rightarrow> bool" where
  "transfer_inv fw s \<longleftrightarrow>
     written_so_far fw s (attempts_made s) \<and>
     (case awaiting s of
        AwaitWrite \<Rightarrow> retryCount s < 3 \<and> offset s < length fw
      | AwaitAck p \<Rightarrow> retryCount s < 3 \<and> offset s < length fw
      | AwaitPause due \<Rightarrow> 1 \<le> retryCount s \<and> retryCount s < 3 \<and> offset s < length fw
      | LoopLeft r \<Rightarrow>
          (case r of
             Transferred \<Rightarrow> \<not> offset s < length fw
           | FailedChunk j \<Rightarrow> retryCount s = 3 \<and> j = chunkIndex s + 1 \<and> offset s < length fw))"



text \<open>
  For the text test of \<^verbatim>\<open>analyzeFirmware\<close>: a list of numbers with every element from
  \<open>0x80\<close> on forgotten and every run of such elements shrunk to one mark; the code units
  of a list of code points; the states the decoder can be in (with one, two or three
  continuation bytes to come, the code point built so far is large enough that the
  finished one is not below \<open>0x80\<close>); and the text \<open>VenusC\<close> as bytes.
\<close>

fun collapse :: "nat list \<Rightarrow> nat option list" where
  "collapse [] = []"
| "collapse (x # xs) =
     (if x < 0x80 then Some x # collapse xs
      else None # dropWhile (\<lambda>y. y = None) (collapse xs))"

definition units :: "nat list \<Rightarrow> nat list" where
  "units cps = concat (map utf16_units cps)"

definition decoder_inv :: "nat \<Rightarrow> nat \<Rightarrow> nat \<Rightarrow> nat \<Rightarrow> nat \<Rightarrow> bool" where
  "decoder_inv cp seen needed lo hi =
     (if needed = 0 then seen = 0 \<and> lo = 0x80 \<and> hi = 0xBF
      else 0x80 \<le> lo \<and> hi \<le> 0xBF \<and> seen < needed \<and>
        (needed - seen = 1 \<and> 2 \<le> cp \<or>
         needed - seen = 2 \<and> (1 \<le> cp \<or> 0xA0 \<le> lo) \<or>
         needed - seen = 3 \<and> (1 \<le> cp \<or> 0x90 \<le> lo)))"

definition VenusC_bytes :: "byte list" where
  "VenusC_bytes = [0x56, 0x65, 0x6E, 0x75, 0x73, 0x43]"

section \<open>Truncation to bytes commutes with XOR\<close>

lemma of_nat_foldl_xor:
  "(of_nat (foldl (XOR) a xs) :: byte) = foldl (XOR) (of_nat a) (map of_nat xs)"
  by (induction xs arbitrary: a) (simp_all add: of_nat_xor_eq)

lemma map_of_nat_unat [simp]: "map (of_nat \<circ> unat) (p :: byte list) = p"
  by (induction p) simp_all

lemma map_of_nat_payloadArray_of [simp]:
  "map of_nat (payloadArray_of payload) = payload_bytes payload"
  by (simp add: payloadArray_of_def payload_bytes_def split: option.split)

lemma length_payloadArray_of [simp]:
  "length (payloadArray_of payload) = length (payload_bytes payload)"
  by (simp add: payloadArray_of_def payload_bytes_def split: option.split)

lemma xor_fold_unat:
  "foldl (XOR) (unat (a :: byte)) (map unat bs) = unat (foldl (XOR) a bs)"
  by (induction bs arbitrary: a) (simp_all flip: unsigned_xor_eq)

lemma xor_fold_unat0: "foldl (XOR) 0 (map unat bs) = unat (xor_bytes bs)"
  using xor_fold_unat [of 0 bs] by (simp add: xor_bytes_def)

lemma and_255_nat: "(n :: nat) AND 0xFF = n mod 256"
proof -
  have "n AND mask 8 = take_bit 8 n" by (simp only: take_bit_eq_mask)
  then show ?thesis by (simp add: take_bit_eq_mod mask_eq_exp_minus_1)
qed

lemma of_nat_mod_256: "(of_nat (n mod 256) :: byte) = of_nat n"
  by (simp add: word_of_nat_eq_iff take_bit_eq_mod)

lemma unat_of_nat_byte: "n < 256 \<Longrightarrow> unat (of_nat n :: byte) = n"
  by (simp add: unat_of_nat)

lemma or_push_bit_8:
  "unat (a :: byte) OR push_bit 8 (unat (b :: byte)) = unat a + 256 * unat b"
proof -
  have "unat a AND push_bit 8 (unat b) = 0"
    by (rule bit_eqI) (auto simp: bit_simps dest: bit_imp_le_length)
  then have "unat a + push_bit 8 (unat b) = unat a OR push_bit 8 (unat b)"
    by (rule disjunctive_add_eq_or)
  then show ?thesis by (simp add: push_bit_eq_mult)
qed

lemma unat_eq_73: "(unat (b :: byte) = 0x73) = (b = 0x73)"
  by (simp add: word_unat_eq_iff)

lemma slice_5_m1: "length v \<ge> 6 \<Longrightarrow> slice_js v 5 (- 1) = butlast (drop 5 v)"
  by (simp add: slice_js_def butlast_conv_take nat_diff_distrib)

section \<open>The OTA frame and its decoder\<close>

lemma createBLEOTAFrame_frame:
  "createBLEOTAFrame cmd reserved payload =
     [0x73, of_nat (length payload + 3), of_nat ((length payload + 3) div 256), cmd, reserved]
     @ payload @
     [xor_bytes ([0x73, of_nat (length payload + 3), of_nat ((length payload + 3) div 256),
                  cmd, reserved] @ payload)]"
  by (simp add: createBLEOTAFrame_def Let_def Uint8Array_def of_nat_foldl_xor of_nat_xor_eq
      xor_bytes_def and_255_nat comp_def drop_bit_eq_div of_nat_mod_256 add.commute)

text \<open>The decoder as a chain of tests on the frame.\<close>

lemma parseOTAFrame_unfold:
  "parseOTAFrame v =
     (if \<not> header_ok v then Inl BadNotificationHeader
      else if declared_length v \<noteq> length v then Inl LengthMismatch
      else if xor_bytes (butlast v) \<noteq> last v then Inl BadXORChecksum
      else Inr \<lparr>ack_cmd = v ! 3, ack_reserved = v ! 4, ack_payload = butlast (drop 5 v)\<rparr>)"
proof (cases "header_ok v")
  case False
  then show ?thesis
    by (auto simp: parseOTAFrame_def header_ok_def unat_eq_73)
next
  case True
  then have len: "length v \<ge> 6" and v0: "unat (v ! 0) = 0x73"
    by (simp_all add: header_ok_def)
  from len have "v \<noteq> []" by auto
  then have l: "v ! (length v - Suc 0) = last v" by (simp add: last_conv_nth)
  have x: "foldl (XOR) 0 (map unat (take (length v - Suc 0) v)) = unat (xor_bytes (butlast v))"
    by (simp add: xor_fold_unat0 butlast_conv_take)
  show ?thesis
    using True len v0
    by (simp add: parseOTAFrame_def Let_def l x slice_5_m1 or_push_bit_8 declared_length_def
        word_unat_eq_iff)
qed

text \<open>
  C5. The decoder of \<^verbatim>\<open>handleNotification\<close> rejects a notification with the bad-header
  error exactly when it has fewer than six bytes or its first byte is not \<open>0x73\<close>. After
  that test it rejects with the length error when the 16-bit number declared in bytes 1
  and 2 differs from the number of bytes received; after that, with the checksum error when
  the XOR of all bytes but the last differs from the last byte; and otherwise it succeeds
  with \<open>cmd\<close> = byte 3, \<open>reserved\<close> = byte 4 and \<open>payload\<close> = the bytes from index 5 up to the
  one before the last.
\<close>

theorem parseOTAFrame_cases:
  "(parseOTAFrame v = Inl BadNotificationHeader \<longleftrightarrow> length v < 6 \<or> v ! 0 \<noteq> 0x73) \<and>
   (header_ok v \<and> declared_length v \<noteq> length v \<longrightarrow> parseOTAFrame v = Inl LengthMismatch) \<and>
   (header_ok v \<and> declared_length v = length v \<and> xor_bytes (butlast v) \<noteq> last v
      \<longrightarrow> parseOTAFrame v = Inl BadXORChecksum) \<and>
   (header_ok v \<and> declared_length v = length v \<and> xor_bytes (butlast v) = last v
      \<longrightarrow> parseOTAFrame v = Inr \<lparr>ack_cmd = v ! 3, ack_reserved = v ! 4,
                                   ack_payload = butlast (drop 5 v)\<rparr>)"
  by (auto simp: parseOTAFrame_unfold header_ok_def)

text \<open>One notification for each of the four outcomes.\<close>

theorem parseOTAFrame_cases_witness:
  "(header_ok [0x73, 6, 0, 0x52, 0x10, 0x37] \<and>
    declared_length [0x73, 6, 0, 0x52, 0x10, 0x37] = 6 \<and>
    xor_bytes (butlast [0x73, 6, 0, 0x52, 0x10, 0x37]) = last [0x73, 6, 0, 0x52, 0x10, 0x37] \<and>
    parseOTAFrame [0x73, 6, 0, 0x52, 0x10, 0x37]
      = Inr \<lparr>ack_cmd = 0x52, ack_reserved = 0x10, ack_payload = []\<rparr>) \<and>
   (header_ok [0x73, 6, 0, 0x52, 0x10, 0x00] \<and>
    declared_length [0x73, 6, 0, 0x52, 0x10, 0x00] = 6 \<and>
    xor_bytes (butlast [0x73, 6, 0, 0x52, 0x10, 0x00]) \<noteq> last [0x73, 6, 0, 0x52, 0x10, 0x00] \<and>
    parseOTAFrame [0x73, 6, 0, 0x52, 0x10, 0x00] = Inl BadXORChecksum) \<and>
   (header_ok [0x73, 3, 0, 0x52, 0x10, 0x32] \<and>
    declared_length [0x73, 3, 0, 0x52, 0x10, 0x32] \<noteq> 6 \<and>
    parseOTAFrame [0x73, 3, 0, 0x52, 0x10, 0x32] = Inl LengthMismatch) \<and>
   parseOTAFrame [0x72, 6, 0, 0x52, 0x10, 0x36] = Inl BadNotificationHeader"
  using parseOTAFrame_cases [of "[0x73, 6, 0, 0x52, 0x10, 0x37]"]
    parseOTAFrame_cases [of "[0x73, 6, 0, 0x52, 0x10, 0x00]"]
    parseOTAFrame_cases [of "[0x73, 3, 0, 0x52, 0x10, 0x32]"]
    parseOTAFrame_cases [of "[0x72, 6, 0, 0x52, 0x10, 0x36]"]
  by (simp add: header_ok_def declared_length_def xor_bytes_def)

text \<open>
  The decoder does not accept what the encoder makes. The frame that
  \<^verbatim>\<open>sendOTAFinalize\<close> sends, command \<open>0x52\<close>, reserved \<open>0x10\<close>, no payload, is six bytes long
  and declares the length 3, and the decoder rejects it.
\<close>

theorem createBLEOTAFrame_roundtrip_counterexample:
  "parseOTAFrame (createBLEOTAFrame 0x52 0x10 []) = Inl LengthMismatch"
  by code_simp

text \<open>
  C1, as the code has it. For every command byte, reserved byte and payload of 0 to 250
  bytes, \<^verbatim>\<open>createBLEOTAFrame\<close> makes the frame
  \<open>[0x73][lenLo][lenHi][cmd][reserved][payload...][xor]\<close> whose 16-bit little-endian length
  counts \<open>cmd\<close>, \<open>reserved\<close>, the payload and the checksum, and whose \<open>xor\<close> is taken over the
  whole frame before it, the two length bytes included. The decoder of
  \<^verbatim>\<open>handleNotification\<close> compares the declared length with the number of all bytes received,
  which is three more, and rejects the frame with the length error: the frames the
  program sends are not frames it accepts.
\<close>

theorem createBLEOTAFrame_rejected:
  "length payload \<le> 250 \<Longrightarrow>
     createBLEOTAFrame cmd reserved payload =
       [0x73, of_nat (length payload + 3), 0, cmd, reserved] @ payload @
       [xor_bytes ([0x73, of_nat (length payload + 3), 0, cmd, reserved] @ payload)] \<and>
     declared_length (createBLEOTAFrame cmd reserved payload) = 1 + 1 + length payload + 1 \<and>
     length (createBLEOTAFrame cmd reserved payload) = length payload + 6 \<and>
     parseOTAFrame (createBLEOTAFrame cmd reserved payload) = Inl LengthMismatch"
proof -
  assume small: "length payload \<le> 250"
  then have d: "(length payload + 3) div 256 = 0" by simp
  have f: "createBLEOTAFrame cmd reserved payload =
           [0x73, of_nat (length payload + 3), 0, cmd, reserved] @ payload @
           [xor_bytes ([0x73, of_nat (length payload + 3), 0, cmd, reserved] @ payload)]"
    by (simp add: createBLEOTAFrame_frame d del: of_nat_add)
  from small have "unat (of_nat (length payload + 3) :: byte) = length payload + 3"
    by (intro unat_of_nat_byte) simp
  then have dl: "declared_length (createBLEOTAFrame cmd reserved payload)
      = 1 + 1 + length payload + 1"
    by (simp add: f declared_length_def)
  have len: "length (createBLEOTAFrame cmd reserved payload) = length payload + 6"
    by (simp add: f)
  have "header_ok (createBLEOTAFrame cmd reserved payload)"
    by (simp add: header_ok_def f)
  then have "parseOTAFrame (createBLEOTAFrame cmd reserved payload) = Inl LengthMismatch"
    using dl len by (simp add: parseOTAFrame_unfold)
  with f dl len show ?thesis by blast
qed

theorem createBLEOTAFrame_rejected_witness:
  "length [0x01, 0x02 :: byte] \<le> 250 \<and>
   declared_length (createBLEOTAFrame 0x51 0x10 [0x01, 0x02]) = 5 \<and>
   length (createBLEOTAFrame 0x51 0x10 [0x01, 0x02]) = 8 \<and>
   parseOTAFrame (createBLEOTAFrame 0x51 0x10 [0x01, 0x02]) = Inl LengthMismatch"
proof -
  have h: "length [0x01, 0x02 :: byte] \<le> 250" by simp
  from createBLEOTAFrame_rejected [OF h, where cmd = "0x51" and reserved = "0x10"]
  have "declared_length (createBLEOTAFrame 0x51 0x10 [0x01, 0x02])
          = 1 + 1 + length [0x01, 0x02 :: byte] + 1"
    and "length (createBLEOTAFrame 0x51 0x10 [0x01, 0x02]) = length [0x01, 0x02 :: byte] + 6"
    and "parseOTAFrame (createBLEOTAFrame 0x51 0x10 [0x01, 0x02]) = Inl LengthMismatch"
    by blast+
  then show ?thesis by simp
qed

section \<open>The command frames\<close>

text \<open>
  C4, as the code has it. For every command byte and every payload, the empty and the
  absent payload included, \<^verbatim>\<open>createCommandMessage\<close> returns the frame
  \<open>[0x73][totalLen][0x23][cmd][payload...][xor]\<close> in which \<open>totalLen\<close> is 5 plus the payload
  length, the number of bytes of the whole frame (the comment at line 326 says that the
  length 0x05 of a frame without payload is the right one), stored in one byte and so
  modulo 256, and \<open>xor\<close> is the XOR of every byte of the frame before it.
\<close>

theorem createCommandMessage_frame:
  "createCommandMessage cmd payload =
     [0x73, of_nat (5 + length (payload_bytes payload)), 0x23, cmd] @ payload_bytes payload @
     [xor_bytes ([0x73, of_nat (5 + length (payload_bytes payload)), 0x23, cmd]
                 @ payload_bytes payload)]"
  by (simp add: createCommandMessage_def Let_def Uint8Array_def START_BYTE_def
      IDENTIFIER_BYTE_def of_nat_foldl_xor of_nat_xor_eq xor_bytes_def add.commute)

text \<open>
  The length byte is not 4 plus the payload length. The activation command that
  \<^verbatim>\<open>sendOTAActivate\<close> sends, \<open>0x1F\<close> with the payload \<open>[0x0A, 0x0B, 0x0C]\<close>, carries the
  length byte 8, not 7.
\<close>

theorem createCommandMessage_length_counterexample:
  "unat (createCommandMessage 0x1F (Some [0x0A, 0x0B, 0x0C]) ! 1)
     \<noteq> 4 + length [0x0A, 0x0B, 0x0C :: byte]"
  by (simp add: createCommandMessage_def Let_def Uint8Array_def START_BYTE_def
      IDENTIFIER_BYTE_def payloadArray_of_def)

text \<open>
  C9, as the code has it. For every command byte and every payload, the empty and the
  absent payload included, \<^verbatim>\<open>createMeterIPMessage\<close> returns the frame
  \<open>[0x73][len][0x23][cmd][payload...][xor]\<close> in which \<open>xor\<close> is the XOR of \<open>0x23\<close>, \<open>cmd\<close> and
  the payload bytes only: the header \<open>0x73\<close> and the length byte are not part of the
  checksum, where the standard frame of \<^verbatim>\<open>createCommandMessage\<close> covers them. The length
  byte \<open>len\<close> is 4 plus the payload length modulo 256, since the frame is a \<^verbatim>\<open>Uint8Array\<close>;
  it is 4 plus the payload length exactly for the payloads of at most 251 bytes.
\<close>

theorem createMeterIPMessage_frame:
  "createMeterIPMessage cmd payload =
     [0x73, of_nat ((4 + length (payload_bytes payload)) mod 256), 0x23, cmd]
     @ payload_bytes payload @ [xor_bytes ([0x23, cmd] @ payload_bytes payload)] \<and>
   unat (createMeterIPMessage cmd payload ! 1) = (4 + length (payload_bytes payload)) mod 256 \<and>
   (unat (createMeterIPMessage cmd payload ! 1) = 4 + length (payload_bytes payload)
      \<longleftrightarrow> length (payload_bytes payload) \<le> 251)"
proof -
  have frame: "createMeterIPMessage cmd payload =
     [0x73, of_nat ((4 + length (payload_bytes payload)) mod 256), 0x23, cmd]
     @ payload_bytes payload @ [xor_bytes ([0x23, cmd] @ payload_bytes payload)]"
    by (simp add: createMeterIPMessage_def Let_def Uint8Array_def START_BYTE_def
        IDENTIFIER_BYTE_def of_nat_foldl_xor of_nat_xor_eq xor_bytes_def add.commute
        of_nat_mod_256)
  have len: "unat (createMeterIPMessage cmd payload ! 1)
      = (4 + length (payload_bytes payload)) mod 256"
    by (simp add: frame unat_of_nat_byte)
  have "(4 + length (payload_bytes payload)) mod 256 = 4 + length (payload_bytes payload)
      \<longleftrightarrow> length (payload_bytes payload) \<le> 251"
    using mod_less_divisor [of 256 "4 + length (payload_bytes payload)"] by auto
  with frame len show ?thesis by simp
qed

text \<open>
  The length byte is not 4 plus the payload length for every payload. With a payload of
  252 bytes the sum is 256 and the length byte of the frame is 0.
\<close>

theorem createMeterIPMessage_length_counterexample:
  "unat (createMeterIPMessage 0x21 (Some (replicate 252 0)) ! 1) = 0 \<and>
   4 + length (replicate 252 (0 :: byte)) = 256"
  by (simp add: createMeterIPMessage_def Let_def Uint8Array_def START_BYTE_def
      IDENTIFIER_BYTE_def payloadArray_of_def)

section \<open>The firmware checksum\<close>

lemma foldl_plus_sum_list: "foldl (+) (a :: nat) xs = a + sum_list xs"
  by (induction xs arbitrary: a) simp_all

lemma unat_NOT_32: "unat (NOT (w :: 32 word)) = 2 ^ 32 - 1 - unat w"
proof -
  have "NOT w = - 1 - w" by (simp add: not_eq_complement)
  moreover have "unat ((- 1 :: 32 word) - w) = unat (- 1 :: 32 word) - unat w"
    by (rule unat_sub) simp
  moreover have "unat (- 1 :: 32 word) = 2 ^ 32 - 1"
    by (simp add: unsigned_minus_1_eq_mask mask_eq_exp_minus_1)
  ultimately show ?thesis by simp
qed

text \<open>
  C7. \<^verbatim>\<open>analyzeFirmware\<close> computes the checksum as the 32-bit ones' complement of the
  unsigned sum of all bytes: the sum is reduced modulo \<open>2^32\<close> and then complemented
  within 32 bits. For the buffer \<open>[0x01, 0x02, 0x03]\<close> the sum is 6 and the checksum is
  \<open>0xFFFFFFF9\<close>.
\<close>

theorem analyzeFirmware_checksum:
  "checksum (analyzeFirmware bytes) = 2 ^ 32 - 1 - sum_list (map unat bytes) mod 2 ^ 32 \<and>
   checksum (analyzeFirmware bytes) = unat (NOT (of_nat (sum_list (map unat bytes)) :: 32 word)) \<and>
   sum_list (map unat [0x01, 0x02, 0x03 :: byte]) = 6 \<and>
   checksum (analyzeFirmware [0x01, 0x02, 0x03]) = 0xFFFFFFF9"
  by (simp add: analyzeFirmware_def Let_def ToInt32_def foldl_plus_sum_list unat_NOT_32 unat_of_nat
      split_def)

section \<open>The echoed checksum\<close>

lemma ff_mask: "(0xFF :: 32 word) = mask 8"
  by (simp add: mask_eq_exp_minus_1)

lemma ucast_signed_drop_bit_byte:
  "k \<le> 24 \<Longrightarrow> (ucast (signed_drop_bit k x) :: byte) = ucast (drop_bit k (x :: 32 word))"
  by (rule bit_word_eqI) (auto simp: bit_simps)

lemma byte_of_low: "(ucast (x AND 0xFF) :: byte) = ucast (x :: 32 word)"
  unfolding ff_mask
  by (rule bit_word_eqI) (auto simp: bit_simps)

lemma le32_bytes_eq:
  "le32_bytes n = [ucast (ToInt32 n), ucast (drop_bit 8 (ToInt32 n)),
                   ucast (drop_bit 16 (ToInt32 n)), ucast (drop_bit 24 (ToInt32 n))]"
  by (simp add: le32_bytes_def Let_def ucast_signed_drop_bit_byte byte_of_low)

lemma word32_of_bytes:
  "(ucast (ucast x :: byte) OR push_bit 8 (ucast (ucast (drop_bit 8 x) :: byte))
      OR push_bit 16 (ucast (ucast (drop_bit 16 x) :: byte))
      OR push_bit 24 (ucast (ucast (drop_bit 24 x) :: byte)) :: 32 word) = x"
proof (rule bit_word_eqI)
  fix n
  assume "n < LENGTH(32)"
  then have n: "n < 32" by simp
  consider "n < 8" | "8 \<le> n" "n < 16" | "16 \<le> n" "n < 24" | "24 \<le> n" "n < 32"
    using n by linarith
  then show "bit (ucast (ucast x :: byte) OR push_bit 8 (ucast (ucast (drop_bit 8 x) :: byte))
      OR push_bit 16 (ucast (ucast (drop_bit 16 x) :: byte))
      OR push_bit 24 (ucast (ucast (drop_bit 24 x) :: byte)) :: 32 word) n = bit x n"
    by cases (auto simp: bit_simps)
qed

lemma read_le32_signed_le32_bytes:
  "read_le32_signed (pre @ le32_bytes n @ post) (length pre) = sint (ToInt32 n)"
  by (simp add: read_le32_signed_def le32_bytes_eq nth_append word32_of_bytes)

lemma bit31_iff: "bit (w :: 32 word) 31 \<longleftrightarrow> \<not> w < 0x80000000"
proof -
  have u: "0 \<le> uint w" "uint w < 4294967296"
    using uint_lt2p [of w] by simp_all
  have d: "uint w div 2147483648 = (if uint w < 2147483648 then 0 else 1)"
  proof (cases "uint w < 2147483648")
    case True
    with u show ?thesis by simp
  next
    case False
    then have "uint w div 2147483648 = (uint w - 2147483648) div 2147483648 + 1"
      by (intro div_pos_geq) simp_all
    moreover have "(uint w - 2147483648) div 2147483648 = 0"
      using False u by (intro div_pos_pos_trivial) simp_all
    ultimately show ?thesis using False by simp
  qed
  have "bit w 31 \<longleftrightarrow> bit (uint w) 31"
    by (simp add: bit_uint_iff)
  also have "\<dots> \<longleftrightarrow> odd (uint w div 2147483648)"
    by (simp add: bit_iff_odd)
  also have "\<dots> \<longleftrightarrow> 2147483648 \<le> uint w"
    by (simp add: d)
  also have "\<dots> \<longleftrightarrow> \<not> w < 0x80000000"
    by (simp add: word_less_alt not_less)
  finally show ?thesis .
qed

lemma length_le32_bytes [simp]: "length (le32_bytes n) = 4"
  by (simp add: le32_bytes_def Let_def)

lemma sint_eq_uint_iff: "sint (w :: 32 word) = uint w \<longleftrightarrow> w < 0x80000000"
proof (cases "bit w 31")
  case True
  then have "sint w < 0" using bit_last_iff [of w] by simp
  moreover have "0 \<le> uint w" by simp
  moreover from True have "\<not> w < 0x80000000" by (simp add: bit31_iff)
  ultimately show ?thesis by linarith
next
  case False
  then have "sint w = uint w"
    by (simp add: sint_uint signed_take_bit_eq_take_bit_minus bit_uint_iff take_bit_int_eq_self
        uint_lt2p [of w, simplified])
  moreover from False have "w < 0x80000000" by (simp add: bit31_iff)
  ultimately show ?thesis by simp
qed


lemma checksum_unat: "checksum (analyzeFirmware bytes) = unat (NOT (of_nat (sum_list (map unat bytes)) :: 32 word))"
  by (simp add: analyzeFirmware_def Let_def ToInt32_def foldl_plus_sum_list split_def)

lemma echo_compare:
  "length pre = 4 \<Longrightarrow>
   (read_le32_signed (pre @ le32_bytes (unat (w :: 32 word)) @ post) 4 = int (unat w)) = (unat w < 0x80000000)"
  using read_le32_signed_le32_bytes [of pre "unat w" post]
  by (simp add: ToInt32_def sint_eq_uint_iff word_less_nat_alt)

text \<open>
  C10. \<^verbatim>\<open>sendFirmwareSize\<close> rebuilds the echoed checksum from bytes 4 to 7 of the
  acknowledgment payload with \<^verbatim>\<open>|\<close> and \<^verbatim>\<open><<\<close>, a signed 32-bit value, and compares it with the
  unsigned checksum that \<^verbatim>\<open>analyzeFirmware\<close> stored. When the acknowledgment carries exactly
  the four checksum bytes that were sent, the comparison succeeds if the checksum is below
  \<open>0x80000000\<close> and reports a mismatch if its top bit is set, which is the case exactly
  when the byte sum modulo \<open>2^32\<close> is below \<open>0x80000000\<close>.
\<close>

theorem sendFirmwareSize_signed_echo:
  "cs = checksum (analyzeFirmware bytes) \<Longrightarrow> length pre = 4 \<Longrightarrow>
     sendFirmwareSize True cs sz
        (Resolved (Ok \<lparr>ack_cmd = c, ack_reserved = r, ack_payload = pre @ le32_bytes cs @ post\<rparr>))
       = (Some (createBLEOTAFrame 0x50 0x10 (le32_bytes sz @ le32_bytes cs)),
          Some (if cs < 0x80000000 then EchoVerified else EchoMismatch), True) \<and>
     (cs \<ge> 0x80000000 \<longleftrightarrow> sum_list (map unat bytes) mod 2 ^ 32 < 0x80000000)"
proof -
  assume cs: "cs = checksum (analyzeFirmware bytes)" and pre: "length pre = 4"
  define w :: "32 word" where "w = NOT (of_nat (sum_list (map unat bytes)))"
  have csw: "cs = unat w" by (simp add: cs w_def checksum_unat)
  have a: "sendFirmwareSize True cs sz
        (Resolved (Ok \<lparr>ack_cmd = c, ack_reserved = r, ack_payload = pre @ le32_bytes cs @ post\<rparr>))
       = (Some (createBLEOTAFrame 0x50 0x10 (le32_bytes sz @ le32_bytes cs)),
          Some (if cs < 0x80000000 then EchoVerified else EchoMismatch), True)"
    using echo_compare [OF pre, of w post]
    by (simp add: sendFirmwareSize_def Let_def pre csw)
  have "cs = 2 ^ 32 - 1 - sum_list (map unat bytes) mod 2 ^ 32"
    by (simp add: csw w_def unat_NOT_32 unat_of_nat)
  moreover have "sum_list (map unat bytes) mod 2 ^ 32 < (2 ^ 32 :: nat)" by simp
  ultimately have b: "cs \<ge> 0x80000000 \<longleftrightarrow> sum_list (map unat bytes) mod 2 ^ 32 < 0x80000000"
    by simp linarith
  from a b show ?thesis by blast
qed

text \<open>
  The three bytes \<open>[1, 2, 3]\<close> have the checksum \<open>0xFFFFFFF9\<close>, and the acknowledgment that
  repeats the size payload is reported as a mismatch; 8421505 bytes \<open>0xFF\<close> have the
  checksum \<open>0x7FFFFF80\<close>, and the same echo is verified.
\<close>

theorem sendFirmwareSize_signed_echo_witness:
  "(0xFFFFFFF9 = checksum (analyzeFirmware [0x01, 0x02, 0x03]) \<and> length (le32_bytes 3) = 4 \<and>
    fst (snd (sendFirmwareSize True 0xFFFFFFF9 3
      (Resolved (Ok \<lparr>ack_cmd = 0x50, ack_reserved = 0x10,
                        ack_payload = le32_bytes 3 @ le32_bytes 0xFFFFFFF9 @ []\<rparr>))))
      = Some EchoMismatch) \<and>
   (0x7FFFFF80 = checksum (analyzeFirmware (replicate 8421505 0xFF)) \<and>
    length (le32_bytes 8421505) = 4 \<and>
    fst (snd (sendFirmwareSize True 0x7FFFFF80 8421505
      (Resolved (Ok \<lparr>ack_cmd = 0x50, ack_reserved = 0x10,
                        ack_payload = le32_bytes 8421505 @ le32_bytes 0x7FFFFF80 @ []\<rparr>))))
      = Some EchoVerified)"
proof -
  have c1: "0xFFFFFFF9 = checksum (analyzeFirmware [0x01, 0x02, 0x03])"
    by (simp add: checksum_unat)
  have c2: "0x7FFFFF80 = checksum (analyzeFirmware (replicate 8421505 0xFF))"
    by (simp add: checksum_unat sum_list_replicate)
  have l1: "length (le32_bytes 3) = 4" and l2: "length (le32_bytes 8421505) = 4"
    by simp_all
  from sendFirmwareSize_signed_echo [OF c1 l1, where sz = 3 and c = "0x50" and r = "0x10"
      and post = "[]"]
  have "fst (snd (sendFirmwareSize True 0xFFFFFFF9 3
      (Resolved (Ok \<lparr>ack_cmd = 0x50, ack_reserved = 0x10,
                        ack_payload = le32_bytes 3 @ le32_bytes 0xFFFFFFF9 @ []\<rparr>))))
      = Some EchoMismatch"
    by simp
  moreover
  from sendFirmwareSize_signed_echo [OF c2 l2, where sz = 8421505 and c = "0x50" and r = "0x10"
      and post = "[]"]
  have "fst (snd (sendFirmwareSize True 0x7FFFFF80 8421505
      (Resolved (Ok \<lparr>ack_cmd = 0x50, ack_reserved = 0x10,
                        ack_payload = le32_bytes 8421505 @ le32_bytes 0x7FFFFF80 @ []\<rparr>))))
      = Some EchoVerified"
    by simp
  ultimately show ?thesis using c1 c2 l1 l2 by blast
qed


section \<open>The firmware type\<close>

text \<open>
  The text test. Decoding never turns bytes from \<open>0x80\<close> on into code units below \<open>0x80\<close>,
  it keeps the bytes below \<open>0x80\<close> as they are and in place, and it puts at least one code
  unit where a run of bytes from \<open>0x80\<close> on stood (but for a byte order mark at the start).
  So a text of characters below \<open>0x80\<close> occurs in the decoded string exactly when its bytes
  occur in the buffer.
\<close>

lemma and_mask_nat: "(n :: nat) AND 0x1F = n mod 32" "(n :: nat) AND 0xF = n mod 16"
  "(n :: nat) AND 7 = n mod 8" "(n :: nat) AND 0x3F = n mod 64"
proof -
  have "n AND mask 5 = take_bit 5 n" "n AND mask 4 = take_bit 4 n"
    "n AND mask 3 = take_bit 3 n" "n AND mask 6 = take_bit 6 n"
    by (simp_all only: take_bit_eq_mask)
  then show "n AND 0x1F = n mod 32" "n AND 0xF = n mod 16" "n AND 7 = n mod 8" "n AND 0x3F = n mod 64"
    by (simp_all add: take_bit_eq_mod mask_eq_exp_minus_1)
qed

lemma mod_in_block:
  fixes b m k :: nat
  assumes "m * k \<le> b" and "b < m * k + m"
  shows "b mod m = b - m * k"
proof -
  from assms have "b = (b - m * k) + m * k" by simp
  then have "b mod m = ((b - m * k) + m * k) mod m" by simp
  also have "\<dots> = (b - m * k) mod m" by (simp only: mod_mult_self2)
  also have "\<dots> = b - m * k" using assms by simp
  finally show ?thesis .
qed

lemma next_cp: "push_bit 6 cp OR ((b :: nat) AND 0x3F) = 64 * cp + b mod 64"
proof -
  have "push_bit 6 cp AND (b AND mask 6) = 0"
    by (rule bit_eqI) (auto simp: bit_simps)
  then have "push_bit 6 cp + (b AND mask 6) = push_bit 6 cp OR (b AND mask 6)"
    by (rule disjunctive_add_eq_or)
  moreover have "(mask 6 :: nat) = 0x3F" by (simp add: mask_eq_exp_minus_1)
  ultimately show ?thesis by (simp add: push_bit_eq_mult and_mask_nat)
qed

lemma collapse_units_high:
  "0x80 \<le> c \<Longrightarrow> collapse (utf16_units c @ ys) = None # dropWhile (\<lambda>y. y = None) (collapse ys)"
  by (simp add: utf16_units_def)


lemma utf8_decode_collapse:
  "decoder_inv cp seen needed lo hi \<Longrightarrow>
   collapse (units (utf8_decode cp seen needed lo hi bs)) =
     (if needed = 0 then collapse bs else collapse (0x80 # bs))"
proof (induction cp seen needed lo hi bs rule: utf8_decode.induct)
  case (1 cp seen needed lo hi)
  then show ?case by (simp add: units_def utf16_units_def)
next
  case (2 cp seen needed lo hi b bs)
  note inv = "2.prems"
  show ?case
  proof (cases "needed = 0")
    case True
    with inv have lh: "seen = 0" "lo = 0x80" "hi = 0xBF" by (simp_all add: decoder_inv_def)
    consider (ascii) "b \<le> 0x7F"
      | (two) "\<not> b \<le> 0x7F" "0xC2 \<le> b \<and> b \<le> 0xDF"
      | (three) "\<not> b \<le> 0x7F" "\<not> (0xC2 \<le> b \<and> b \<le> 0xDF)" "0xE0 \<le> b \<and> b \<le> 0xEF"
      | (four) "\<not> b \<le> 0x7F" "\<not> (0xC2 \<le> b \<and> b \<le> 0xDF)" "\<not> (0xE0 \<le> b \<and> b \<le> 0xEF)"
          "0xF0 \<le> b \<and> b \<le> 0xF4"
      | (bad) "\<not> b \<le> 0x7F" "\<not> (0xC2 \<le> b \<and> b \<le> 0xDF)" "\<not> (0xE0 \<le> b \<and> b \<le> 0xEF)"
          "\<not> (0xF0 \<le> b \<and> b \<le> 0xF4)"
      by blast
    then show ?thesis
    proof cases
      case ascii
      from "2.IH"(1) [OF True ascii inv] True ascii
      show ?thesis by (simp add: units_def utf16_units_def)
    next
      case two
      from two have "b mod 32 = b - 32 * 6" by (intro mod_in_block) simp_all
      with two have "2 \<le> b mod 32" by auto
      then have "decoder_inv (b AND 0x1F) seen 1 lo hi"
        using lh by (simp add: decoder_inv_def and_mask_nat)
      from "2.IH"(2) [OF True two this] True two
      show ?thesis by simp
    next
      case three
      from three have "b mod 16 = b - 16 * 14" by (intro mod_in_block) simp_all
      with three have "b \<noteq> 0xE0 \<longrightarrow> 1 \<le> b mod 16" by auto
      then have "decoder_inv (b AND 0xF) seen 2 (if b = 0xE0 then 0xA0 else lo)
          (if b = 0xED then 0x9F else hi)"
        using lh by (simp add: decoder_inv_def and_mask_nat)
      from "2.IH"(3) [OF True three this] True three
      show ?thesis by simp
    next
      case four
      from four have "b mod 8 = b - 8 * 30" by (intro mod_in_block) simp_all
      with four have "b \<noteq> 0xF0 \<longrightarrow> 1 \<le> b mod 8" by auto
      then have "decoder_inv (b AND 7) seen 3 (if b = 0xF0 then 0x90 else lo)
          (if b = 0xF4 then 0x8F else hi)"
        using lh by (simp add: decoder_inv_def and_mask_nat)
      from "2.IH"(4) [OF True four this] True four
      show ?thesis by simp
    next
      case bad
      from bad(1) have nb: "\<not> b < 128" by simp
      from "2.IH"(5) [OF True bad inv] True
      show ?thesis by (simp add: units_def utf16_units_def bad nb)
    qed
  next
    case False
    with inv have bounds: "0x80 \<le> lo" "hi \<le> 0xBF" "seen < needed"
      and rem: "needed - seen = 1 \<and> 2 \<le> cp \<or>
         needed - seen = 2 \<and> (1 \<le> cp \<or> 0xA0 \<le> lo) \<or>
         needed - seen = 3 \<and> (1 \<le> cp \<or> 0x90 \<le> lo)"
      by (simp_all add: decoder_inv_def)
    show ?thesis
    proof (cases "lo \<le> b \<and> b \<le> hi")
      case out: False
      have "decoder_inv 0 0 0 0x80 0xBF" by (simp add: decoder_inv_def)
      from "2.IH"(6) [OF False out this] False out
      show ?thesis by (simp add: units_def utf16_units_def)
    next
      case inr: True
      then have b: "0x80 \<le> b" "b \<le> 0xBF" using bounds by simp_all
      let ?cp = "push_bit 6 cp OR (b AND 0x3F)"
      have cp': "?cp = 64 * cp + b mod 64" by (rule next_cp)
      from b have low: "b mod 64 = b - 64 * 2" by (intro mod_in_block) simp_all
      show ?thesis
      proof (cases "seen + 1 \<noteq> needed")
        case more: True
        have "decoder_inv ?cp (seen + 1) needed 0x80 0xBF"
          using more bounds rem inr b unfolding cp' low decoder_inv_def by auto
        from "2.IH"(7) [OF False _ refl more this] False inr more b
        show ?thesis by simp
      next
        case last: False
        then have "needed - seen = 1" by simp
        with rem have "2 \<le> cp" by simp
        then have high: "0x80 \<le> ?cp" unfolding cp' by simp
        have "decoder_inv 0 0 0 0x80 0xBF" by (simp add: decoder_inv_def)
        from "2.IH"(8) [OF False _ refl last this] False inr last b
        show ?thesis using collapse_units_high [OF high] by (simp add: units_def Let_def)
      qed
    qed
  qed
qed


lemma prefix_collapse:
  "\<forall>p \<in> set P. p < 0x80 \<Longrightarrow>
   (take (length P) xs = P) = (take (length P) (collapse xs) = map Some P)"
proof (induction P arbitrary: xs)
  case Nil
  show ?case by simp
next
  case (Cons p P)
  then have p: "p < 0x80" and rest: "\<forall>p \<in> set P. p < 0x80" by simp_all
  show ?case
  proof (cases xs)
    case Nil
    then show ?thesis by simp
  next
    case (Cons x xs')
    show ?thesis
    proof (cases "x < 0x80")
      case True
      with Cons Cons.IH [OF rest, of xs'] show ?thesis by simp
    next
      case False
      with p have "x \<noteq> p" by auto
      with Cons False show ?thesis by simp
    qed
  qed
qed

lemma includes_skip_None:
  "includes_js (dropWhile (\<lambda>y. y = None) c) (Some q # Q) = includes_js c (Some q # Q)"
  by (induction c) auto

lemma includes_collapse:
  "P \<noteq> [] \<Longrightarrow> \<forall>p \<in> set P. p < 0x80 \<Longrightarrow>
   includes_js xs P = includes_js (collapse xs) (map Some P)"
proof (induction xs)
  case Nil
  then show ?case by simp
next
  case (Cons x xs)
  from Cons.prems obtain q Q where P: "P = q # Q" by (cases P) auto
  with Cons.prems have q: "q < 0x80" by simp
  note IH = Cons.IH [OF Cons.prems]
  note pc = prefix_collapse [OF Cons.prems(2), of "x # xs"]
  show ?case
  proof (cases "x < 0x80")
    case True
    with IH pc show ?thesis by simp
  next
    case False
    with q have "x \<noteq> q" by auto
    with False IH includes_skip_None [of "collapse xs" q "map Some Q"]
    show ?thesis by (simp add: P)
  qed
qed

lemma includes_map_inj:
  "inj f \<Longrightarrow> includes_js (map f xs) (map f P) = includes_js xs P"
proof (induction xs)
  case Nil
  show ?case by simp
next
  case (Cons x xs)
  have "(take (length P) (map f (x # xs)) = map f P) = (take (length P) (x # xs) = P)"
    by (simp only: take_map inj_map_eq_map [OF Cons.prems])
  with Cons.IH [OF Cons.prems] show ?case by simp
qed

lemma TextDecoder_includes:
  assumes "P \<noteq> []" and "\<forall>p \<in> set P. p < 0x80"
  shows "includes_js (TextDecoder_decode w) P = includes_js (map unat w) P"
proof -
  obtain q Q where P: "P = q # Q" using assms(1) by (cases P) auto
  let ?cps = "utf8_decode 0 0 0 0x80 0xBF (map unat w)"
  have "decoder_inv 0 0 0 0x80 0xBF" by (simp add: decoder_inv_def)
  from utf8_decode_collapse [OF this, of "map unat w"]
  have c: "collapse (units ?cps) = collapse (map unat w)" by simp
  have "includes_js (collapse (TextDecoder_decode w)) (map Some P)
      = includes_js (collapse (units ?cps)) (map Some P)"
  proof (cases ?cps)
    case Nil
    then show ?thesis by (simp add: TextDecoder_decode_def units_def)
  next
    case (Cons c rest)
    show ?thesis
    proof (cases "c = 0xFEFF")
      case True
      with Cons have t: "TextDecoder_decode w = units rest"
        by (simp add: TextDecoder_decode_def units_def)
      from Cons True have "collapse (units ?cps)
          = None # dropWhile (\<lambda>y. y = None) (collapse (units rest))"
        by (simp add: units_def utf16_units_def)
      then show ?thesis
        using includes_skip_None [of "collapse (units rest)" q "map Some Q"]
        by (simp add: t P)
    next
      case False
      with Cons show ?thesis by (simp add: TextDecoder_decode_def units_def)
    qed
  qed
  then show ?thesis
    using includes_collapse [OF assms, of "TextDecoder_decode w"]
      includes_collapse [OF assms, of "map unat w"] c
    by simp
qed

lemma signature_test:
  "includes_js (TextDecoder_decode w) VenusC = includes_js w VenusC_bytes"
proof -
  have v: "VenusC = map unat VenusC_bytes" by (simp add: VenusC_def VenusC_bytes_def)
  have "includes_js (TextDecoder_decode w) VenusC = includes_js (map unat w) VenusC"
    by (rule TextDecoder_includes) (simp_all add: VenusC_def)
  also have "\<dots> = includes_js w VenusC_bytes"
    unfolding v by (rule includes_map_inj) (simp add: inj_on_def word_unat_eq_iff)
  finally show ?thesis .
qed


lemma slice_window:
  "length bytes > signatureOffset + 10 \<Longrightarrow>
   slice_js bytes (int signatureOffset) (int (signatureOffset + 10)) = signature_window bytes"
  by (simp add: slice_js_def signature_window_def signatureOffset_def)

text \<open>
  C8. \<^verbatim>\<open>analyzeFirmware\<close> classifies a buffer in this order. Longer than \<open>0x50004 + 10\<close>
  bytes: if the ten bytes at offset \<open>0x50004\<close> contain the text \<open>VenusC\<close>, the type is
  EMS/Control; else if one of the ten bytes is neither \<open>0x00\<close> nor \<open>0xFF\<close>, it is BMS (no
  signature); else it is Unknown (signature area empty). Not longer than that: BMS by size
  from 32768 bytes on, Unknown (small) with the size warning from 1024 bytes on, and Unknown
  (very small) with the stronger warning below 1024 bytes. A buffer of \<open>0x50010\<close> bytes with
  \<open>VenusC0000\<close> at offset \<open>0x50004\<close> is EMS/Control, and with that window zeroed it is
  Unknown (signature area empty).
\<close>

theorem analyzeFirmware_classification:
  "(length bytes > 0x50004 + 10 \<and> includes_js (signature_window bytes) VenusC_bytes
      \<longrightarrow> firmwareType (analyzeFirmware bytes) = ''EMS/Control Firmware (VenusC signature found)'') \<and>
   (length bytes > 0x50004 + 10 \<and> \<not> includes_js (signature_window bytes) VenusC_bytes \<and>
    (\<exists>b \<in> set (signature_window bytes). b \<noteq> 0x00 \<and> b \<noteq> 0xFF)
      \<longrightarrow> firmwareType (analyzeFirmware bytes) = ''BMS Firmware (no VenusC signature)'') \<and>
   (length bytes > 0x50004 + 10 \<and> \<not> includes_js (signature_window bytes) VenusC_bytes \<and>
    \<not> (\<exists>b \<in> set (signature_window bytes). b \<noteq> 0x00 \<and> b \<noteq> 0xFF)
      \<longrightarrow> firmwareType (analyzeFirmware bytes) = ''Unknown (signature area empty)'') \<and>
   (length bytes \<le> 0x50004 + 10 \<and> length bytes \<ge> 32768
      \<longrightarrow> firmwareType (analyzeFirmware bytes) = ''BMS Firmware (size suggests BMS)'') \<and>
   (length bytes < 32768 \<and> length bytes \<ge> 1024
      \<longrightarrow> firmwareType (analyzeFirmware bytes) = ''Unknown (small size - proceed with caution)'' \<and>
          warning (analyzeFirmware bytes) = ''File size is unusually small for firmware'') \<and>
   (length bytes < 1024
      \<longrightarrow> firmwareType (analyzeFirmware bytes) = ''Unknown (very small - likely not firmware)'' \<and>
          warning (analyzeFirmware bytes)
            = ''File size is very small - this may not be valid firmware'') \<and>
   (length bytes = 0x50010 \<and>
    signature_window bytes = [0x56, 0x65, 0x6E, 0x75, 0x73, 0x43, 0x30, 0x30, 0x30, 0x30]
      \<longrightarrow> firmwareType (analyzeFirmware bytes) = ''EMS/Control Firmware (VenusC signature found)'') \<and>
   (length bytes = 0x50010 \<and> signature_window bytes = [0, 0, 0, 0, 0, 0, 0, 0, 0, 0]
      \<longrightarrow> firmwareType (analyzeFirmware bytes) = ''Unknown (signature area empty)'')"
proof -
  have big: "firmwareType (analyzeFirmware bytes) =
      (if includes_js (signature_window bytes) VenusC_bytes
       then ''EMS/Control Firmware (VenusC signature found)''
       else if \<exists>b \<in> set (signature_window bytes). b \<noteq> 0x00 \<and> b \<noteq> 0xFF
       then ''BMS Firmware (no VenusC signature)''
       else ''Unknown (signature area empty)'')" if "length bytes > 0x50004 + 10"
    using that slice_window [of bytes]
    by (auto simp: analyzeFirmware_def Let_def signatureOffset_def signature_test
        simp del: includes_js.simps)
  have small: "length bytes \<le> 0x50004 + 10 \<Longrightarrow>
     firmwareType (analyzeFirmware bytes) =
       (if length bytes \<ge> 32768 then ''BMS Firmware (size suggests BMS)''
        else if length bytes \<ge> 1024 then ''Unknown (small size - proceed with caution)''
        else ''Unknown (very small - likely not firmware)'') \<and>
     warning (analyzeFirmware bytes) =
       (if length bytes \<ge> 32768 then []
        else if length bytes \<ge> 1024 then ''File size is unusually small for firmware''
        else ''File size is very small - this may not be valid firmware'')"
    by (simp add: analyzeFirmware_def Let_def signatureOffset_def)
  have v: "includes_js [0x56, 0x65, 0x6E, 0x75, 0x73, 0x43, 0x30, 0x30, 0x30, 0x30 :: byte]
      VenusC_bytes"
    by (simp add: VenusC_bytes_def)
  have z: "\<not> includes_js [0, 0, 0, 0, 0, 0, 0, 0, 0, 0 :: byte] VenusC_bytes"
    by (simp add: VenusC_bytes_def)
  show ?thesis
    using big small v z by (auto simp del: includes_js.simps)
qed

text \<open>One buffer for each class.\<close>

theorem analyzeFirmware_classification_witness:
  "(length ems_image = 0x50010 \<and>
    signature_window ems_image = [0x56, 0x65, 0x6E, 0x75, 0x73, 0x43, 0x30, 0x30, 0x30, 0x30] \<and>
    includes_js (signature_window ems_image) VenusC_bytes \<and>
    firmwareType (analyzeFirmware ems_image) = ''EMS/Control Firmware (VenusC signature found)'') \<and>
   (length blank_image = 0x50010 \<and>
    signature_window blank_image = [0, 0, 0, 0, 0, 0, 0, 0, 0, 0] \<and>
    \<not> includes_js (signature_window blank_image) VenusC_bytes \<and>
    \<not> (\<exists>b \<in> set (signature_window blank_image). b \<noteq> 0x00 \<and> b \<noteq> 0xFF) \<and>
    firmwareType (analyzeFirmware blank_image) = ''Unknown (signature area empty)'') \<and>
   (length bms_image > 0x50004 + 10 \<and>
    \<not> includes_js (signature_window bms_image) VenusC_bytes \<and>
    (\<exists>b \<in> set (signature_window bms_image). b \<noteq> 0x00 \<and> b \<noteq> 0xFF) \<and>
    firmwareType (analyzeFirmware bms_image) = ''BMS Firmware (no VenusC signature)'') \<and>
   (length (replicate 32768 (0 :: byte)) \<le> 0x50004 + 10 \<and>
    length (replicate 32768 (0 :: byte)) \<ge> 32768 \<and>
    firmwareType (analyzeFirmware (replicate 32768 0)) = ''BMS Firmware (size suggests BMS)'') \<and>
   (length (replicate 1024 (0 :: byte)) < 32768 \<and> length (replicate 1024 (0 :: byte)) \<ge> 1024 \<and>
    firmwareType (analyzeFirmware (replicate 1024 0))
      = ''Unknown (small size - proceed with caution)'') \<and>
   (length ([] :: byte list) < 1024 \<and>
    firmwareType (analyzeFirmware []) = ''Unknown (very small - likely not firmware)'')"
proof -
  have e: "length ems_image = 0x50010"
      "signature_window ems_image = [0x56, 0x65, 0x6E, 0x75, 0x73, 0x43, 0x30, 0x30, 0x30, 0x30]"
    by (simp_all add: ems_image_def signature_window_def)
  have z: "length blank_image = 0x50010"
      "signature_window blank_image = [0, 0, 0, 0, 0, 0, 0, 0, 0, 0]"
    by (simp_all add: blank_image_def signature_window_def)
  have b: "length bms_image > 0x50004 + 10"
      "signature_window bms_image = [1, 2, 3, 4, 5, 6, 7, 8, 9, 10]"
    by (simp_all add: bms_image_def signature_window_def)
  have bn: "\<not> includes_js (signature_window bms_image) VenusC_bytes"
    by (simp add: b VenusC_bytes_def)
  have bd: "\<exists>b \<in> set (signature_window bms_image). b \<noteq> 0x00 \<and> b \<noteq> 0xFF"
    by (simp add: b)
  have zn: "\<not> includes_js (signature_window blank_image) VenusC_bytes"
    by (simp add: z VenusC_bytes_def)
  have zd: "\<not> (\<exists>b \<in> set (signature_window blank_image). b \<noteq> 0x00 \<and> b \<noteq> 0xFF)"
    by (simp add: z)
  have en: "includes_js (signature_window ems_image) VenusC_bytes"
    by (simp add: e VenusC_bytes_def)
  have s1: "length (replicate 32768 (0 :: byte)) \<le> 0x50004 + 10 \<and>
      length (replicate 32768 (0 :: byte)) \<ge> 32768"
    by simp
  have s2: "length (replicate 1024 (0 :: byte)) < 32768 \<and>
      length (replicate 1024 (0 :: byte)) \<ge> 1024"
    by simp
  have s3: "length ([] :: byte list) < 1024" by simp
  note t1 = analyzeFirmware_classification [of ems_image]
  note t2 = analyzeFirmware_classification [of blank_image]
  note t3 = analyzeFirmware_classification [of bms_image]
  note t4 = analyzeFirmware_classification [of "replicate 32768 0"]
  note t5 = analyzeFirmware_classification [of "replicate 1024 0"]
  note t6 = analyzeFirmware_classification [of "[]"]
  have "firmwareType (analyzeFirmware ems_image) = ''EMS/Control Firmware (VenusC signature found)''"
    using t1 e by blast
  moreover have "firmwareType (analyzeFirmware blank_image) = ''Unknown (signature area empty)''"
    using t2 z by blast
  moreover have "firmwareType (analyzeFirmware bms_image) = ''BMS Firmware (no VenusC signature)''"
    using t3 b(1) bn bd by blast
  moreover have "firmwareType (analyzeFirmware (replicate 32768 0))
      = ''BMS Firmware (size suggests BMS)''"
    using t4 s1 by blast
  moreover have "firmwareType (analyzeFirmware (replicate 1024 0))
      = ''Unknown (small size - proceed with caution)''"
    using t5 s2 by blast
  moreover have "firmwareType (analyzeFirmware [])
      = ''Unknown (very small - likely not firmware)''"
    using t6 s3 by blast
  ultimately show ?thesis
    using e z b(1) bn bd zn zd en s1 s2 s3 by blast
qed

section \<open>The mailbox\<close>

text \<open>One wait on its own resolves as intended.\<close>

lemma waitForAck_matching_ack:
  "parseOTAFrame v = Inr a \<Longrightarrow> ack_cmd a = c \<Longrightarrow>
   resolveLog (handleNotification v (snd (waitForAck c t s)))
     = resolveLog s @ [(nextPromise s, Ok a)] \<and>
   pendingAckResolve (handleNotification v (snd (waitForAck c t s))) = None"
  by (simp add: handleNotification_def deliverAck_def waitForAck_def Let_def ackResolver_def
      resolve_def)

lemma waitForAck_unexpected_ack:
  "parseOTAFrame v = Inr a \<Longrightarrow> ack_cmd a \<noteq> c \<Longrightarrow>
   resolveLog (handleNotification v (snd (waitForAck c t s)))
     = resolveLog s @ [(nextPromise s, NotOk (UnexpectedCmd c (ack_cmd a)))] \<and>
   pendingAckResolve (handleNotification v (snd (waitForAck c t s))) = None"
  by (simp add: handleNotification_def deliverAck_def waitForAck_def Let_def ackResolver_def
      resolve_def)

lemma waitForAck_timeout:
  "timers s = [] \<Longrightarrow> t \<le> ms \<Longrightarrow>
   resolveLog (elapse ms (snd (waitForAck c t s)))
     = resolveLog s @ [(nextPromise s, NotOk Timeout)] \<and>
   pendingAckResolve (elapse ms (snd (waitForAck c t s))) = None"
  by (simp add: elapse_def waitForAck_def Let_def timeoutCallback_def resolve_def)

lemma waitForAck_late_ack_dropped:
  "pendingAckResolve s = None \<Longrightarrow> handleNotification v s = s \<or>
     (\<exists>e. handleNotification v s = s\<lparr>decodeLog := decodeLog s @ [e]\<rparr>)"
  by (auto simp: handleNotification_def deliverAck_def split: sum.split)



text \<open>
  Once the slot is empty, no notification and no timer resolves anything, until the next
  call of \<^verbatim>\<open>waitForAck\<close>.
\<close>

lemma timeoutCallback_idle: "pendingAckResolve s = None \<Longrightarrow> timeoutCallback p s = s"
  by (simp add: timeoutCallback_def)

lemma timeouts_idle:
  "pendingAckResolve s = None \<Longrightarrow> foldl (\<lambda>s' (d, p). timeoutCallback p s') s due = s"
  by (induction due) (simp_all add: timeoutCallback_idle split_def)

lemma elapse_idle:
  "pendingAckResolve s = None \<Longrightarrow>
   resolveLog (elapse ms s) = resolveLog s \<and> pendingAckResolve (elapse ms s) = None"
  by (simp add: elapse_def Let_def timeouts_idle)

lemma handleNotification_idle:
  "pendingAckResolve s = None \<Longrightarrow>
   resolveLog (handleNotification v s) = resolveLog s \<and>
   pendingAckResolve (handleNotification v s) = None"
  by (simp add: handleNotification_def deliverAck_def split: sum.split)

lemma idle_forever:
  "pendingAckResolve s = None \<Longrightarrow> \<forall>e \<in> set evs. \<not> is_wait e \<Longrightarrow>
   resolveLog (foldl step s evs) = resolveLog s \<and> pendingAckResolve (foldl step s evs) = None"
proof (induction evs arbitrary: s)
  case Nil
  then show ?case by simp
next
  case (Cons e evs)
  from Cons.prems have e: "\<not> is_wait e" and rest: "\<forall>e \<in> set evs. \<not> is_wait e" by simp_all
  have "resolveLog (step s e) = resolveLog s \<and> pendingAckResolve (step s e) = None"
    using e Cons.prems(1) elapse_idle handleNotification_idle
    by (cases e) (simp_all add: is_wait_def)
  with Cons.IH [of "step s e", OF _ rest] show ?case by simp
qed

lemma stale_state:
  "pendingAckResolve (run stale_timer_trace) = None \<and>
   resolveLog (run stale_timer_trace) =
     [(0, Ok \<lparr>ack_cmd = 0x51, ack_reserved = 0x10, ack_payload = [0, 0, 0, 0]\<rparr>),
      (0, NotOk Timeout)] \<and>
   timers (run stale_timer_trace) = [(1560, 1)] \<and> now (run stale_timer_trace) = 1500 \<and>
   nextPromise (run stale_timer_trace) = 2"
  by code_simp


lemma run_append: "run (evs @ evs') = foldl step (run evs) evs'"
  by (simp add: run_def)

lemma second_wait_stays_unresolved:
  "\<forall>e \<in> set later. \<not> is_wait e \<Longrightarrow>
   promise_value (run (stale_timer_trace @ later)) 1 = None \<and>
   promise_value (run (stale_timer_trace @ later)) 0
     = Some (Ok \<lparr>ack_cmd = 0x51, ack_reserved = 0x10, ack_payload = [0, 0, 0, 0]\<rparr>)"
proof -
  assume "\<forall>e \<in> set later. \<not> is_wait e"
  with idle_forever [of "run stale_timer_trace" later] stale_state
  have "resolveLog (run (stale_timer_trace @ later)) =
     [(0, Ok \<lparr>ack_cmd = 0x51, ack_reserved = 0x10, ack_payload = [0, 0, 0, 0]\<rparr>),
      (0, NotOk Timeout)]"
    by (simp add: run_append)
  then show ?thesis by (simp add: promise_value_def)
qed

lemma now_timeouts:
  "now (foldl (\<lambda>s' (d, p). timeoutCallback p s') s due) = now s"
  by (induction due arbitrary: s) (simp_all add: timeoutCallback_def resolve_def split_def)

lemma now_elapse: "now (elapse ms s) = now s + ms"
  by (simp add: elapse_def Let_def now_timeouts)

lemma now_handleNotification: "now (handleNotification v s) = now s"
  by (simp add: handleNotification_def deliverAck_def ackResolver_def resolve_def
      split: sum.split option.split prod.split)

lemma ack_frame_128_parses:
  "parseOTAFrame ack_frame_128
     = Inr \<lparr>ack_cmd = 0x51, ack_reserved = 0x10, ack_payload = [0x80, 0, 0, 0]\<rparr>"
  by (simp add: parseOTAFrame_unfold ack_frame_128_def header_ok_def declared_length_def
      xor_bytes_def)

text \<open>
  C2. Every call of \<^verbatim>\<open>waitForAck\<close> is to resolve to exactly one tagged value, and of two
  waits in sequence each is to resolve once. The timer of a wait is not cancelled when the
  wait resolves, and its callback tests the shared \<^verbatim>\<open>pendingAckResolve\<close>, not its own
  resolver. In the run below the first wait resolves to its acknowledgment at 50 ms and
  the second wait starts at 60 ms; at 1500 ms the timer of the first wait finds the slot
  of the second wait, clears it and calls the first promise's \<^verbatim>\<open>resolve\<close> once more. The
  acknowledgment of the second wait arrives at 1520 ms, before its deadline at 1560 ms, and
  is dropped; the timer of the second wait finds the slot empty. At 101560 ms the second
  promise has no value, and by \<open>second_wait_stays_unresolved\<close> it never gets one.
\<close>

theorem stale_timer_second_wait_unresolved:
  "promise_value (run stale_timer_trace) 0
     = Some (Ok \<lparr>ack_cmd = 0x51, ack_reserved = 0x10, ack_payload = [0, 0, 0, 0]\<rparr>) \<and>
   timers (run stale_timer_trace) = [(1560, 1)] \<and>
   now (run stale_timer_trace) = 1500 \<and>
   pendingAckResolve (run stale_timer_trace) = None \<and>
   parseOTAFrame ack_frame_128
     = Inr \<lparr>ack_cmd = 0x51, ack_reserved = 0x10, ack_payload = [0x80, 0, 0, 0]\<rparr> \<and>
   now (run (stale_timer_trace @ [Elapse 20, Notification ack_frame_128, Elapse 40, Elapse 100000]))
     = 101560 \<and>
   promise_value
     (run (stale_timer_trace @ [Elapse 20, Notification ack_frame_128, Elapse 40, Elapse 100000])) 1
     = None"
proof -
  have "\<forall>e \<in> set [Elapse 20, Notification ack_frame_128, Elapse 40, Elapse 100000]. \<not> is_wait e"
    by (simp add: is_wait_def)
  then have "promise_value
     (run (stale_timer_trace @ [Elapse 20, Notification ack_frame_128, Elapse 40, Elapse 100000])) 1
     = None"
    using second_wait_stays_unresolved by blast
  moreover have "now (run (stale_timer_trace @
      [Elapse 20, Notification ack_frame_128, Elapse 40, Elapse 100000])) = 101560"
    using stale_state by (simp add: run_append now_elapse now_handleNotification)
  moreover have "promise_value (run stale_timer_trace) 0
     = Some (Ok \<lparr>ack_cmd = 0x51, ack_reserved = 0x10, ack_payload = [0, 0, 0, 0]\<rparr>)"
    using stale_state by (simp add: promise_value_def)
  ultimately show ?thesis using stale_state ack_frame_128_parses by blast
qed

section \<open>The chunk transfer\<close>

text \<open>
  What the transfer writes is right in every run: wherever it is suspended, the chunks
  before the one in hand have been written in order, each one to three times, and the one
  in hand once for each attempt made at it.
\<close>

lemma total_gt_iff: "ci < otaTotalChunks fw \<longleftrightarrow> otaChunkSize * ci < length fw"
  by (auto simp: otaTotalChunks_def otaChunkSize_def)

lemma chunk_at_take:
  "off < length fw \<Longrightarrow> chunk_at fw off = take (min otaChunkSize (length fw - off)) (drop off fw)"
  by (auto simp: chunk_at_def Let_def slice_js_def min_def nat_diff_distrib nat_add_distrib)

lemma chunk_writes_snoc:
  "chunk_writes fw (counts @ [c]) =
     chunk_writes fw counts @ replicate c (chunk_write_at fw (length counts))"
  by (simp add: chunk_writes_def)

lemma written_so_far_fields [simp]:
  "written_so_far fw (s\<lparr>awaiting := a\<rparr>) k = written_so_far fw s k"
  "written_so_far fw (s\<lparr>retryCount := r\<rparr>) k = written_so_far fw s k"
  "written_so_far fw (s\<lparr>mailbox := m\<rparr>) k = written_so_far fw s k"
  "written_so_far fw (s\<lparr>echoLog := l\<rparr>) k = written_so_far fw s k"
  by (simp_all add: written_so_far_def)

lemma written_so_far_offset:
  "written_so_far fw s k \<Longrightarrow> offset s < length fw \<Longrightarrow> offset s = otaChunkSize * chunkIndex s"
  by (auto simp: written_so_far_def min_def split: if_splits)

lemma sendFirmwareChunk_inv:
  assumes "written_so_far fw s (retryCount s)" "retryCount s < 3" "offset s < length fw"
  shows "transfer_inv fw (sendFirmwareChunk True fw s)"
proof -
  from written_so_far_offset [OF assms(1,3)] have off: "offset s = otaChunkSize * chunkIndex s" .
  have w: "\<lparr>cw_index = chunkIndex s + 1, cw_offset = offset s, cw_data = chunk_at fw (offset s),
      cw_frame = createBLEOTAFrame 0x51 0x10 (le32_bytes (offset s) @ chunk_at fw (offset s))\<rparr>
      = chunk_write_at fw (chunkIndex s)"
    using assms(3) by (simp add: chunk_write_at_def Let_def chunk_at_take off)
  have s: "sendFirmwareChunk True fw s =
      s\<lparr>written := written s @ [chunk_write_at fw (chunkIndex s)], awaiting := AwaitWrite\<rparr>"
    using w by (simp add: sendFirmwareChunk_def Let_def)
  from assms(1) have "written_so_far fw
      (s\<lparr>written := written s @ [chunk_write_at fw (chunkIndex s)]\<rparr>) (retryCount s + 1)"
    by (auto simp: written_so_far_def replicate_append_same)
  with assms(2,3) show ?thesis by (simp add: s transfer_inv_def attempts_made_def)
qed

lemma chunkFailed_inv:
  assumes "written_so_far fw s (retryCount s + 1)" "retryCount s < 3" "offset s < length fw"
  shows "transfer_inv fw (chunkFailed s)"
  using assms by (auto simp: chunkFailed_def Let_def transfer_inv_def attempts_made_def
      written_so_far_def)

lemma nextChunk_inv:
  assumes "written_so_far fw s 0"
  shows "transfer_inv fw (nextChunk True fw s)"
proof (cases "offset s < length fw")
  case True
  have "written_so_far fw (s\<lparr>retryCount := 0\<rparr>) (retryCount (s\<lparr>retryCount := 0\<rparr>))"
    using assms by simp
  from sendFirmwareChunk_inv [OF this] True show ?thesis by (simp add: nextChunk_def)
next
  case False
  with assms show ?thesis by (simp add: nextChunk_def transfer_inv_def attempts_made_def)
qed

lemma ackResolved_inv:
  assumes "written_so_far fw s (retryCount s + 1)" "retryCount s < 3" "offset s < length fw"
  shows "transfer_inv fw (ackResolved True fw r s)"
proof (cases r)
  case (NotOk e)
  with chunkFailed_inv [OF assms] show ?thesis by (simp add: ackResolved_def)
next
  case (Ok a)
  from written_so_far_offset [OF assms(1,3)] have off: "offset s = otaChunkSize * chunkIndex s" .
  from assms(1) obtain counts where c: "length counts = chunkIndex s"
      "\<forall>c \<in> set counts. 1 \<le> c \<and> c \<le> 3"
      "written s = chunk_writes fw counts @ replicate (retryCount s + 1) (chunk_write_at fw (chunkIndex s))"
    by (auto simp: written_so_far_def)
  have ws: "written_so_far fw
      (s\<lparr>echoLog := l, offset := offset s + length (chunk_at fw (offset s)),
         chunkIndex := chunkIndex s + 1\<rparr>) 0" for l
  proof -
    let ?s = "s\<lparr>echoLog := l, offset := offset s + length (chunk_at fw (offset s)),
         chunkIndex := chunkIndex s + 1\<rparr>"
    have "written ?s = chunk_writes fw (counts @ [retryCount s + 1])
        @ replicate 0 (chunk_write_at fw (chunkIndex ?s))"
      using c by (simp add: chunk_writes_snoc)
    moreover have "length (counts @ [retryCount s + 1]) = chunkIndex ?s" using c by simp
    moreover have "\<forall>c \<in> set (counts @ [retryCount s + 1]). 1 \<le> c \<and> c \<le> 3"
      using c assms(2) by auto
    moreover have "offset ?s = min (otaChunkSize * chunkIndex ?s) (length fw)"
      using assms(3) by (auto simp: chunk_at_take off min_def)
    moreover have "chunkIndex ?s \<le> otaTotalChunks fw"
      using assms(3) total_gt_iff [of "chunkIndex s" fw] by (simp add: off)
    ultimately show ?thesis
      unfolding written_so_far_def by blast
  qed
  show ?thesis
    using Ok nextChunk_inv [OF ws] by (simp add: ackResolved_def Let_def)
qed

lemma transfer_inv_waiting:
  "transfer_inv fw s \<Longrightarrow> awaiting s = AwaitWrite \<or> awaiting s = AwaitAck p \<Longrightarrow>
   written_so_far fw s (retryCount s + 1) \<and> retryCount s < 3 \<and> offset s < length fw"
  by (auto simp: transfer_inv_def attempts_made_def)

lemma transfer_inv_mailbox:
  "transfer_inv fw s \<Longrightarrow> transfer_inv fw (s\<lparr>mailbox := m\<rparr>)"
  by (auto simp: transfer_inv_def attempts_made_def split: awaited.splits transfer_result.splits)

lemma continue_inv:
  assumes "transfer_inv fw s"
  shows "transfer_inv fw (continue True fw s)"
proof (cases "awaiting s")
  case AwaitWrite
  with assms show ?thesis by (simp add: continue_def)
next
  case (AwaitAck p)
  from transfer_inv_waiting [OF assms, of p] AwaitAck
  have "written_so_far fw s (retryCount s + 1)" "retryCount s < 3" "offset s < length fw"
    by simp_all
  from ackResolved_inv [OF this] assms AwaitAck show ?thesis
    by (simp add: continue_def split: option.split)
next
  case (AwaitPause due)
  with assms have w: "written_so_far fw s (retryCount s)" "retryCount s < 3" "offset s < length fw"
    by (simp_all add: transfer_inv_def attempts_made_def)
  from sendFirmwareChunk_inv [OF w] w(2) assms AwaitPause show ?thesis
    by (simp add: continue_def pauseOver_def)
next
  case (LoopLeft r)
  with assms show ?thesis by (simp add: continue_def)
qed

lemma writeSettled_inv:
  assumes "transfer_inv fw s"
  shows "transfer_inv fw (writeSettled fulfilled s)"
proof (cases "awaiting s = AwaitWrite")
  case False
  with assms show ?thesis by (simp add: writeSettled_def)
next
  case True
  from transfer_inv_waiting [OF assms, of 0] True
  have w: "written_so_far fw s (retryCount s + 1)" "retryCount s < 3" "offset s < length fw"
    by simp_all
  show ?thesis
  proof (cases fulfilled)
    case False
    with chunkFailed_inv [OF w] True show ?thesis by (simp add: writeSettled_def)
  next
    case f: True
    with True w show ?thesis
      by (simp add: writeSettled_def waitForAck_def Let_def transfer_inv_def attempts_made_def)
  qed
qed

lemma ota_step_inv:
  "transfer_inv fw s \<Longrightarrow> transfer_inv fw (ota_step True fw s e)"
  by (cases e) (simp_all add: writeSettled_inv continue_inv transfer_inv_mailbox)

lemma startTransfer_inv: "transfer_inv fw (startTransfer True fw m)"
proof -
  have "written_so_far fw \<lparr>mailbox = m, awaiting = AwaitWrite, offset = 0, chunkIndex = 0,
      retryCount = 0, written = [], echoLog = []\<rparr> 0"
    by (simp add: written_so_far_def chunk_writes_def)
  from nextChunk_inv [OF this] show ?thesis by (simp add: startTransfer_def)
qed

lemma foldl_inv:
  "transfer_inv fw s \<Longrightarrow> transfer_inv fw (foldl (ota_step True fw) s evs)"
  by (induction evs arbitrary: s) (simp_all add: ota_step_inv)

lemma transferChunks_inv: "transfer_inv fw (transferChunks True fw m evs)"
  by (simp add: transferChunks_def foldl_inv startTransfer_inv)

lemma transferChunks_written:
  "\<exists>counts. (\<forall>c \<in> set counts. 1 \<le> c \<and> c \<le> 3) \<and>
     written (transferChunks True fw m evs) = chunk_writes fw counts \<and>
     (awaiting (transferChunks True fw m evs) = LoopLeft Transferred
        \<longrightarrow> length counts = otaTotalChunks fw) \<and>
     (\<forall>j. awaiting (transferChunks True fw m evs) = LoopLeft (FailedChunk j)
        \<longrightarrow> length counts = j \<and> last counts = 3) \<and>
     length counts \<le> otaTotalChunks fw"
proof -
  let ?s = "transferChunks True fw m evs"
  have inv: "transfer_inv fw ?s" by (rule transferChunks_inv)
  then obtain counts where c: "length counts = chunkIndex ?s"
      "\<forall>c \<in> set counts. 1 \<le> c \<and> c \<le> 3"
      "written ?s = chunk_writes fw counts @ replicate (attempts_made ?s) (chunk_write_at fw (chunkIndex ?s))"
      and off: "offset ?s = min (otaChunkSize * chunkIndex ?s) (length fw)"
      and le: "chunkIndex ?s \<le> otaTotalChunks fw"
    by (auto simp: transfer_inv_def written_so_far_def)
  show ?thesis
  proof (cases "awaiting ?s = LoopLeft Transferred")
    case True
    with inv have n: "\<not> offset ?s < length fw" and a: "attempts_made ?s = 0"
      by (simp_all add: transfer_inv_def attempts_made_def)
    from n off have "\<not> otaChunkSize * chunkIndex ?s < length fw" by (simp add: min_def split: if_splits)
    with total_gt_iff [of "chunkIndex ?s" fw] le have "chunkIndex ?s = otaTotalChunks fw" by simp
    with c a True show ?thesis by (intro exI [of _ counts]) simp
  next
    case False
    with inv have lt: "offset ?s < length fw" and a: "1 \<le> attempts_made ?s" "attempts_made ?s \<le> 3"
      and f: "\<forall>j. awaiting ?s = LoopLeft (FailedChunk j) \<longrightarrow> j = chunkIndex ?s + 1 \<and> attempts_made ?s = 3"
      by (auto simp: transfer_inv_def attempts_made_def split: awaited.splits transfer_result.splits)
    from lt off have "otaChunkSize * chunkIndex ?s < length fw" by (simp add: min_def split: if_splits)
    with total_gt_iff [of "chunkIndex ?s" fw] have "chunkIndex ?s < otaTotalChunks fw" by simp
    with c a f False show ?thesis
      by (intro exI [of _ "counts @ [attempts_made ?s]"]) (auto simp: chunk_writes_snoc)
  qed
qed

text \<open>
  Chunk \<open>i\<close> is the slice of \<open>min(128, remaining)\<close> bytes at offset \<open>128 * i\<close>, its frame is the
  OTA frame with command \<open>0x51\<close> and reserved \<open>0x10\<close> whose payload is the offset in four
  little-endian bytes followed by the slice, and the next offset is this offset plus the
  length of the slice.
\<close>

lemma unat_byte_of_drop_bit:
  "k \<le> 24 \<Longrightarrow> unat (ucast (drop_bit k (of_nat n :: 32 word)) :: byte) = n div 2 ^ k mod 256"
proof -
  assume k: "k \<le> 24"
  have "unat (ucast (drop_bit k (of_nat n :: 32 word)) :: byte)
      = take_bit 8 (drop_bit k (take_bit 32 n))"
    by (simp add: unsigned_ucast_eq unsigned_drop_bit_eq unsigned_of_nat)
  also have "\<dots> = take_bit 8 (drop_bit k n)"
  proof -
    from k have "min 8 (32 - k) = 8" by simp
    then show ?thesis by (simp add: drop_bit_take_bit)
  qed
  also have "\<dots> = n div 2 ^ k mod 256"
    by (simp add: take_bit_eq_mod drop_bit_eq_div)
  finally show ?thesis .
qed

lemma le32_bytes_arith:
  "map unat (le32_bytes n) = [n mod 256, n div 256 mod 256, n div 65536 mod 256, n div 16777216 mod 256]"
  using unat_byte_of_drop_bit [of 0 n] unat_byte_of_drop_bit [of 8 n]
    unat_byte_of_drop_bit [of 16 n] unat_byte_of_drop_bit [of 24 n]
  by (simp add: le32_bytes_eq ToInt32_def)

lemma chunk_write_at_fields:
  "cw_offset (chunk_write_at fw i) = 128 * i"
  "cw_data (chunk_write_at fw i) = take (min 128 (length fw - 128 * i)) (drop (128 * i) fw)"
  "length (cw_data (chunk_write_at fw i)) = min 128 (length fw - 128 * i)"
  "cw_frame (chunk_write_at fw i) =
     createBLEOTAFrame 0x51 0x10 (le32_bytes (128 * i) @ cw_data (chunk_write_at fw i))"
  "map unat (le32_bytes (128 * i)) =
     [128 * i mod 256, 128 * i div 256 mod 256, 128 * i div 65536 mod 256,
      128 * i div 16777216 mod 256]"
  by (simp_all add: chunk_write_at_def Let_def otaChunkSize_def le32_bytes_arith)

lemma chunk_write_at_next:
  "Suc i < otaTotalChunks fw \<Longrightarrow>
   cw_offset (chunk_write_at fw (Suc i)) =
     cw_offset (chunk_write_at fw i) + length (cw_data (chunk_write_at fw i))"
  using total_gt_iff [of "Suc i" fw]
  by (auto simp: chunk_write_at_def Let_def otaChunkSize_def)

text \<open>
  When the device acknowledges every write after 100 ms, the transfer of 300 bytes writes
  three chunks of 128, 128 and 44 bytes at the offsets 0, 128 and 256 and leaves the loop.
\<close>

lemma quick_acks_transferred:
  "awaiting (transferChunks True firmware_300 (size_acknowledged 100) quick_acks)
     = LoopLeft Transferred \<and>
   map (\<lambda>w. (cw_offset w, length (cw_data w)))
     (written (transferChunks True firmware_300 (size_acknowledged 100) quick_acks))
     = [(0, 128), (128, 128), (256, 44)]"
  by code_simp

text \<open>
  A transfer that waits for an acknowledgment while the slot \<^verbatim>\<open>pendingAckResolve\<close> is empty
  waits for ever: no notification and no timer settles its promise, and nothing more is
  written.
\<close>

lemma stalled_step:
  assumes "awaiting s = AwaitAck p" "pendingAckResolve (mailbox s) = None"
    "promise_value (mailbox s) p = None"
  shows "awaiting (ota_step tx fw s e) = AwaitAck p \<and>
    pendingAckResolve (mailbox (ota_step tx fw s e)) = None \<and>
    promise_value (mailbox (ota_step tx fw s e)) p = None \<and>
    written (ota_step tx fw s e) = written s"
proof (cases e)
  case (WriteSettled b)
  with assms show ?thesis by (simp add: writeSettled_def)
next
  case (Notified v)
  from assms(2) handleNotification_idle [of "mailbox s" v]
  have "resolveLog (handleNotification v (mailbox s)) = resolveLog (mailbox s)"
    "pendingAckResolve (handleNotification v (mailbox s)) = None" by simp_all
  with assms Notified show ?thesis by (simp add: continue_def promise_value_def)
next
  case (Elapsed ms)
  from assms(2) elapse_idle [of "mailbox s" ms]
  have "resolveLog (elapse ms (mailbox s)) = resolveLog (mailbox s)"
    "pendingAckResolve (elapse ms (mailbox s)) = None" by simp_all
  with assms Elapsed show ?thesis by (simp add: continue_def promise_value_def)
qed

lemma stalled_forever:
  "awaiting s = AwaitAck p \<Longrightarrow> pendingAckResolve (mailbox s) = None \<Longrightarrow>
   promise_value (mailbox s) p = None \<Longrightarrow>
   awaiting (foldl (ota_step tx fw) s evs) = AwaitAck p \<and>
   promise_value (mailbox (foldl (ota_step tx fw) s evs)) p = None \<and>
   written (foldl (ota_step tx fw) s evs) = written s"
proof (induction evs arbitrary: s)
  case Nil
  then show ?case by simp
next
  case (Cons e evs)
  from stalled_step [OF Cons.prems, of tx fw e] Cons.IH [of "ota_step tx fw s e"]
  show ?case by simp
qed

lemma transferChunks_append:
  "transferChunks tx fw m (evs @ later) = foldl (ota_step tx fw) (transferChunks tx fw m evs) later"
  by (simp add: transferChunks_def)

lemma slow_acks_state:
  "awaiting (transferChunks True firmware_300 (size_acknowledged 1100) slow_acks) = AwaitAck 1 \<and>
   pendingAckResolve (mailbox (transferChunks True firmware_300 (size_acknowledged 1100) slow_acks)) = None \<and>
   resolveLog (mailbox (transferChunks True firmware_300 (size_acknowledged 1100) slow_acks)) =
     [(0, Ok \<lparr>ack_cmd = 0x50, ack_reserved = 0x10, ack_payload = []\<rparr>), (0, NotOk Timeout)] \<and>
   timers (mailbox (transferChunks True firmware_300 (size_acknowledged 1100) slow_acks)) = [] \<and>
   now (mailbox (transferChunks True firmware_300 (size_acknowledged 1100) slow_acks)) = 2600 \<and>
   map (\<lambda>w. (cw_offset w, length (cw_data w)))
     (written (transferChunks True firmware_300 (size_acknowledged 1100) slow_acks)) = [(0, 128)]"
  by code_simp

lemma ack_frame_0_parses:
  "parseOTAFrame ack_frame_0
     = Inr \<lparr>ack_cmd = 0x51, ack_reserved = 0x10, ack_payload = [0, 0, 0, 0]\<rparr>"
  by (simp add: parseOTAFrame_unfold ack_frame_0_def header_ok_def declared_length_def
      xor_bytes_def)

text \<open>
  C6. The chunk loop of \<^verbatim>\<open>performOTAUpdate\<close> is to send a firmware of 300 bytes as three
  chunks of 128, 128 and 44 bytes at the offsets 0, 128 and 256. In the run below every
  write is acknowledged 1100 ms after it, within the 2000 ms of the wait of
  \<^verbatim>\<open>sendFirmwareSize\<close> and the 1500 ms of the wait of \<^verbatim>\<open>sendFirmwareChunk\<close>. The size frame is
  acknowledged at 1100 ms and the transfer writes the first chunk and waits for its
  acknowledgment. At 2000 ms the timer of the wait for the size acknowledgment, which
  nothing has cancelled, finds the resolver of the wait for the chunk in
  \<^verbatim>\<open>pendingAckResolve\<close> and clears the slot. The acknowledgment of the chunk at 2200 ms is
  dropped, and at 2600 ms the timer of the wait for it finds the slot empty. The promise
  that \<^verbatim>\<open>sendFirmwareChunk\<close> awaits is not settled then, and it is not settled after any
  further notifications, writes settled and time passed: the first chunk is never
  retried and the second and third chunks are never sliced or sent.
\<close>

theorem transferChunks_stalls_after_first_chunk:
  "otaTotalChunks firmware_300 = 3 \<and>
   parseOTAFrame ack_frame_0
     = Inr \<lparr>ack_cmd = 0x51, ack_reserved = 0x10, ack_payload = [0, 0, 0, 0]\<rparr> \<and>
   now (mailbox (transferChunks True firmware_300 (size_acknowledged 1100) slow_acks)) = 2600 \<and>
   timers (mailbox (transferChunks True firmware_300 (size_acknowledged 1100) slow_acks)) = [] \<and>
   (\<forall>later.
      awaiting (transferChunks True firmware_300 (size_acknowledged 1100) (slow_acks @ later))
        = AwaitAck 1 \<and>
      promise_value
        (mailbox (transferChunks True firmware_300 (size_acknowledged 1100) (slow_acks @ later))) 1
        = None \<and>
      map (\<lambda>w. (cw_offset w, length (cw_data w)))
        (written (transferChunks True firmware_300 (size_acknowledged 1100) (slow_acks @ later)))
        = [(0, 128)])"
proof -
  let ?s = "transferChunks True firmware_300 (size_acknowledged 1100) slow_acks"
  have total: "otaTotalChunks firmware_300 = 3"
    by (simp add: otaTotalChunks_def otaChunkSize_def firmware_300_def)
  from slow_acks_state have st: "awaiting ?s = AwaitAck 1"
    "pendingAckResolve (mailbox ?s) = None" "promise_value (mailbox ?s) 1 = None"
    by (simp_all add: promise_value_def)
  have "awaiting (transferChunks True firmware_300 (size_acknowledged 1100) (slow_acks @ later))
        = AwaitAck 1 \<and>
      promise_value
        (mailbox (transferChunks True firmware_300 (size_acknowledged 1100) (slow_acks @ later))) 1
        = None \<and>
      map (\<lambda>w. (cw_offset w, length (cw_data w)))
        (written (transferChunks True firmware_300 (size_acknowledged 1100) (slow_acks @ later)))
        = [(0, 128)]" for later
    using stalled_forever [OF st, of True firmware_300 later] slow_acks_state
    by (simp add: transferChunks_append)
  with total ack_frame_0_parses slow_acks_state show ?thesis by blast
qed

section \<open>Routing of OTA acknowledgments\<close>






end
